theory Spec2Isabelle
  imports Complex_Main
begin

section \<open>Directions and motions (tools/movement.py)\<close>

text \<open>
  \<open>Direction\<close> and \<open>Motion\<close> are integer enumerations.  The integer value of a
  direction matters where directions are compared as integers (tuples on the priority
  queue), the value of a motion where the opposite motion is computed as \<open>10 - value\<close>.
\<close>

datatype Direction = NORTH | SOUTH | EAST | WEST | SKIP

fun Direction_value :: "Direction \<Rightarrow> int" where
  "Direction_value NORTH = 0"
| "Direction_value SOUTH = 1"
| "Direction_value EAST = 2"
| "Direction_value WEST = 3"
| "Direction_value SKIP = 4"

text \<open>Every \<open>raise\<close> of the source is a value of this type.\<close>

datatype error = ValueError | KeyError | IndexError | TypeError | AttributeError

definition rotation_cost :: "Direction \<Rightarrow> Direction \<Rightarrow> error + int" where
  "rotation_cost d1 d2 =
     (if d1 = NORTH then
        (if d2 \<in> {EAST, WEST} then Inr 1 else if d2 = NORTH then Inr 0 else Inl ValueError)
      else if d1 = SOUTH then
        (if d2 \<in> {EAST, WEST} then Inr 1 else if d2 = SOUTH then Inr 0 else Inl ValueError)
      else if d1 = EAST then
        (if d2 \<in> {NORTH, SOUTH} then Inr 1 else if d2 = EAST then Inr 0 else Inl ValueError)
      else if d1 = WEST then
        (if d2 \<in> {NORTH, SOUTH} then Inr 1 else if d2 = WEST then Inr 0 else Inl ValueError)
      else Inl ValueError)"

datatype Motion =
    FORWARD_LEFT_TURN | FORWARD_OFFSET_LEFT | FORWARD | FORWARD_OFFSET_RIGHT
  | FORWARD_RIGHT_TURN
  | REVERSE_LEFT_TURN | REVERSE_OFFSET_RIGHT | REVERSE | REVERSE_OFFSET_LEFT
  | REVERSE_RIGHT_TURN
  | CAPTURE




definition reverse_cost :: "Motion \<Rightarrow> error + int" where
  "reverse_cost m =
     (if m = CAPTURE then Inl ValueError
      else if m \<in> {REVERSE_OFFSET_RIGHT, REVERSE_OFFSET_LEFT, REVERSE_LEFT_TURN,
                    REVERSE_RIGHT_TURN, REVERSE}
      then Inr 1 else Inr 0)"

definition half_turn_cost :: "Motion \<Rightarrow> int" where
  "half_turn_cost m =
     (if m \<in> {FORWARD_OFFSET_LEFT, FORWARD_OFFSET_RIGHT, REVERSE_OFFSET_LEFT,
               REVERSE_OFFSET_RIGHT}
      then 1 else 0)"

section \<open>Constants (tools/consts.py)\<close>

definition TURN_FACTOR :: int where "TURN_FACTOR = 6"
definition HALF_TURN_FACTOR :: int where "HALF_TURN_FACTOR = 5 * 2"
definition REVERSE_FACTOR :: int where "REVERSE_FACTOR = 3"
definition SAFE_COST :: int where "SAFE_COST = 1000"
definition SCREENSHOT_COST :: int where "SCREENSHOT_COST = 100"
definition TOO_CLOSE_COST :: int where "TOO_CLOSE_COST = 50"
definition TURN_PADDING :: int where "TURN_PADDING = 2"
definition MID_TURN_PADDING :: int where "MID_TURN_PADDING = 2"
definition TURN_RADIUS :: int where "TURN_RADIUS = 1"
definition TURNS :: "int list" where "TURNS = [5 * TURN_RADIUS, 3 * TURN_RADIUS]"
definition HALF_TURNS :: "int list" where "HALF_TURNS = [4 * TURN_RADIUS, 1 * TURN_RADIUS]"
definition MOVE_DIRECTION :: "(int \<times> int \<times> Direction) list" where
  "MOVE_DIRECTION = [(1, 0, EAST), (-1, 0, WEST), (0, 1, NORTH), (0, -1, SOUTH)]"
definition ITERATIONS :: nat where "ITERATIONS = 2000"
definition EXPANDED_CELL :: int where "EXPANDED_CELL = 1"

lemmas consts_defs =
  TURN_FACTOR_def HALF_TURN_FACTOR_def REVERSE_FACTOR_def SAFE_COST_def SCREENSHOT_COST_def
  TOO_CLOSE_COST_def TURN_PADDING_def MID_TURN_PADDING_def TURN_RADIUS_def TURNS_def
  HALF_TURNS_def MOVE_DIRECTION_def EXPANDED_CELL_def

section \<open>Cells, obstacles and the grid (entities/entity.py)\<close>

text \<open>
  The attribute \<open>screenshot_id\<close> of a \<open>CellState\<close> holds two kinds of value in the source:
  a list of capture tags (the default \<open>[]\<close>, extended by \<open>add_screenshot\<close>), and, for the
  viewing poses that \<open>Obstacle.get_view_state\<close> builds, the obstacle id itself, an integer
  passed in the position of \<open>screenshot_id\<close>.
\<close>

datatype screenshot = ObstacleId int | Tags "string list"

record CellState =
  x :: int
  y :: int
  direction :: Direction
  screenshot_id :: screenshot
  penalty :: int

text \<open>The constructor \<open>CellState(x, y, direction, screenshot_id, penalty)\<close>.\<close>

definition new_CellState ::
    "int \<Rightarrow> int \<Rightarrow> Direction \<Rightarrow> screenshot \<Rightarrow> int \<Rightarrow> CellState" where
  "new_CellState px py d s p =
     \<lparr>x = px, y = py, direction = d, screenshot_id = s, penalty = p\<rparr>"

definition cmp_position :: "CellState \<Rightarrow> int \<Rightarrow> int \<Rightarrow> bool" where
  "cmp_position c px py = (x c = px \<and> y c = py)"

definition is_eq :: "CellState \<Rightarrow> int \<Rightarrow> int \<Rightarrow> Direction \<Rightarrow> bool" where
  "is_eq c px py d = (x c = px \<and> y c = py \<and> direction c = d)"

text \<open>\<open>add_screenshot\<close> appends to the tag list; an integer has no \<open>append\<close>.\<close>

definition add_screenshot :: "CellState \<Rightarrow> string \<Rightarrow> error + CellState" where
  "add_screenshot c tag =
     (case screenshot_id c of
        Tags ts \<Rightarrow> Inr (c\<lparr>screenshot_id := Tags (ts @ [tag])\<rparr>)
      | ObstacleId n \<Rightarrow> Inl AttributeError)"

record Obstacle = CellState +
  obstacle_id :: int

definition new_Obstacle :: "int \<Rightarrow> int \<Rightarrow> Direction \<Rightarrow> int \<Rightarrow> Obstacle" where
  "new_Obstacle px py d n =
     \<lparr>x = px, y = py, direction = d, screenshot_id = Tags [], penalty = 0, obstacle_id = n\<rparr>"

text \<open>\<open>Obstacle.__eq__\<close>: position and direction, not the id.\<close>

definition Obstacle_eq :: "Obstacle \<Rightarrow> Obstacle \<Rightarrow> bool" where
  "Obstacle_eq a b = (x a = x b \<and> y a = y b \<and> direction a = direction b)"

text \<open>
  The class attributes \<open>Grid.size_x = 20\<close> and \<open>Grid.size_y = 20\<close>.  The class method
  \<open>is_valid_grid_position\<close> is called on the class (\<open>Grid.is_valid_grid_position\<close>), so it
  reads these and not the attributes that \<open>__init__\<close> sets on an instance.
\<close>

definition Grid_size_x :: int where "Grid_size_x = 20"
definition Grid_size_y :: int where "Grid_size_y = 20"

definition is_valid_grid_position :: "int \<Rightarrow> int \<Rightarrow> bool" where
  "is_valid_grid_position px py = (0 \<le> px \<and> px < Grid_size_x \<and> 0 \<le> py \<and> py < Grid_size_y)"

text \<open>
  The loop of \<open>get_view_state\<close> over \<open>enumerate(positions)\<close>: every valid position becomes
  a cell facing \<open>d\<close>, carrying the obstacle id and the cost of its slot.
\<close>

definition view_cells ::
    "(int \<times> int) list \<Rightarrow> int list \<Rightarrow> Direction \<Rightarrow> int \<Rightarrow> CellState list" where
  "view_cells positions costs d n =
     map (\<lambda>(pos, c). new_CellState (fst pos) (snd pos) d (ObstacleId n) c)
       (filter (\<lambda>(pos, c). is_valid_grid_position (fst pos) (snd pos)) (zip positions costs))"

definition view_costs :: "int list" where
  "view_costs = [TOO_CLOSE_COST, SCREENSHOT_COST, SCREENSHOT_COST, TOO_CLOSE_COST div 2, 0]"

definition get_view_state :: "Obstacle \<Rightarrow> CellState list" where
  "get_view_state ob =
     (let offset = 2 * EXPANDED_CELL in
      if direction ob = NORTH then
        view_cells
          [(x ob, y ob + offset),
           (x ob - 1, y ob + 2 + offset),
           (x ob + 1, y ob + 2 + offset),
           (x ob, y ob + 1 + offset),
           (x ob, y ob + 2 + offset)]
          view_costs SOUTH (obstacle_id ob)
      else if direction ob = SOUTH then
        view_cells
          [(x ob, y ob - offset),
           (x ob + 1, y ob - 2 - offset),
           (x ob - 1, y ob - 2 - offset),
           (x ob, y ob - 1 - offset),
           (x ob, y ob - 2 - offset)]
          view_costs NORTH (obstacle_id ob)
      else if direction ob = EAST then
        view_cells
          [(x ob + offset, y ob),
           (x ob + 2 + offset, y ob + 1),
           (x ob + 2 + offset, y ob - 1),
           (x ob + 1 + offset, y ob),
           (x ob + 2 + offset, y ob)]
          view_costs WEST (obstacle_id ob)
      else if direction ob = WEST then
        view_cells
          [(x ob - offset, y ob),
           (x ob - 2 - offset, y ob + 1),
           (x ob - 2 - offset, y ob - 1),
           (x ob - 1 - offset, y ob),
           (x ob - 2 - offset, y ob)]
          view_costs EAST (obstacle_id ob)
      else [])"

record Grid =
  size_x :: int
  size_y :: int
  obstacles :: "Obstacle list"

definition new_Grid :: "int \<Rightarrow> int \<Rightarrow> Grid" where
  "new_Grid sx sy = \<lparr>size_x = sx, size_y = sy, obstacles = []\<rparr>"

definition add_obstacle :: "Grid \<Rightarrow> Obstacle \<Rightarrow> Grid" where
  "add_obstacle g ob =
     (if list_ex (\<lambda>o'. Obstacle_eq o' ob) (obstacles g) then g
      else g\<lparr>obstacles := obstacles g @ [ob]\<rparr>)"

definition is_valid_coord :: "Grid \<Rightarrow> int \<Rightarrow> int \<Rightarrow> bool" where
  "is_valid_coord g px py =
     (if px < 1 \<or> px \<ge> size_x g - 1 \<or> py < 1 \<or> py \<ge> size_y g - 1 then False else True)"

text \<open>The loop of \<open>reachable\<close> over the obstacles, with its two early returns.\<close>

fun reachable_loop :: "Obstacle list \<Rightarrow> int \<Rightarrow> int \<Rightarrow> bool" where
  "reachable_loop [] px py = True"
| "reachable_loop (ob # obs) px py =
     (if \<bar>x ob - px\<bar> + \<bar>y ob - py\<bar> \<le> 2 then False
      else if max \<bar>x ob - px\<bar> \<bar>y ob - py\<bar> < 2 then False
      else reachable_loop obs px py)"

definition reachable :: "Grid \<Rightarrow> int \<Rightarrow> int \<Rightarrow> bool" where
  "reachable g px py =
     (if \<not> is_valid_coord g px py then False else reachable_loop (obstacles g) px py)"

definition get_view_obstacle_positions :: "Grid \<Rightarrow> CellState list list" where
  "get_view_obstacle_positions g =
     map (\<lambda>ob. filter (\<lambda>view_state. reachable g (x view_state) (y view_state))
                 (get_view_state ob))
       (filter (\<lambda>ob. direction ob \<noteq> SKIP) (obstacles g))"

fun find_obstacle_by_id :: "Obstacle list \<Rightarrow> screenshot \<Rightarrow> Obstacle option" where
  "find_obstacle_by_id [] s = None"
| "find_obstacle_by_id (ob # obs) s =
     (if ObstacleId (obstacle_id ob) = s then Some ob else find_obstacle_by_id obs s)"

section \<open>Straight reachability\<close>

lemma reachable_loop_iff:
  "reachable_loop obs px py \<longleftrightarrow>
     (\<forall>ob \<in> set obs. \<bar>x ob - px\<bar> + \<bar>y ob - py\<bar> > 2 \<and> max \<bar>x ob - px\<bar> \<bar>y ob - py\<bar> \<ge> 2)"
  by (induction obs) auto

text \<open>
  Claim C9.  \<open>reachable(x, y)\<close> is true exactly when \<open>(x, y)\<close> is interior
  (\<open>1 \<le> x \<le> size_x - 2\<close> and \<open>1 \<le> y \<le> size_y - 2\<close>) and every obstacle is at Manhattan
  distance greater than 2 and at Chebyshev distance at least 2.
\<close>

theorem reachable_iff:
  "reachable g px py \<longleftrightarrow>
     (1 \<le> px \<and> px \<le> size_x g - 2 \<and> 1 \<le> py \<and> py \<le> size_y g - 2) \<and>
     (\<forall>ob \<in> set (obstacles g).
        \<bar>x ob - px\<bar> + \<bar>y ob - py\<bar> > 2 \<and> max \<bar>x ob - px\<bar> \<bar>y ob - py\<bar> \<ge> 2)"
  unfolding reachable_def is_valid_coord_def reachable_loop_iff by auto

theorem reachable_iff_witness:
  "reachable \<lparr>size_x = 20, size_y = 20, obstacles = [new_Obstacle 10 10 SOUTH 1]\<rparr> 10 7 \<and>
   \<not> reachable \<lparr>size_x = 20, size_y = 20, obstacles = [new_Obstacle 10 10 SOUTH 1]\<rparr> 11 9 \<and>
   \<not> reachable \<lparr>size_x = 20, size_y = 20, obstacles = [new_Obstacle 10 10 SOUTH 1]\<rparr> 19 3"
  using reachable_iff [of "\<lparr>size_x = 20, size_y = 20, obstacles = [new_Obstacle 10 10 SOUTH 1]\<rparr>" 10 7]
    reachable_iff [of "\<lparr>size_x = 20, size_y = 20, obstacles = [new_Obstacle 10 10 SOUTH 1]\<rparr>" 11 9]
    reachable_iff [of "\<lparr>size_x = 20, size_y = 20, obstacles = [new_Obstacle 10 10 SOUTH 1]\<rparr>" 19 3]
  by (simp add: new_Obstacle_def)

section \<open>Viewing poses\<close>

lemma view_cells_valid:
  "c \<in> set (view_cells positions costs d n) \<Longrightarrow> is_valid_grid_position (x c) (y c)"
  by (auto simp: view_cells_def new_CellState_def)

lemma get_view_state_valid:
  "c \<in> set (get_view_state ob) \<Longrightarrow> is_valid_grid_position (x c) (y c)"
  by (auto simp: get_view_state_def Let_def dest: view_cells_valid split: if_splits)

text \<open>
  Claim C10.  \<open>Obstacle.get_view_state\<close> filters against the class-level bounds
  \<open>0 \<le> x < 20\<close> and \<open>0 \<le> y < 20\<close>, whatever the dimensions of the grid instance: every
  candidate that \<open>get_view_state\<close> returns, and so every candidate that
  \<open>get_view_obstacle_positions\<close> returns for a grid \<open>g\<close> of any size, lies in the default
  square.  A candidate outside it is dropped even when it is inside \<open>g\<close> and reachable
  (the witness: a 30 by 30 grid, where four reachable slots are dropped).
\<close>

theorem view_state_default_bounds:
  "(\<forall>c \<in> set (get_view_state ob). 0 \<le> x c \<and> x c < 20 \<and> 0 \<le> y c \<and> y c < 20) \<and>
   (\<forall>vs \<in> set (get_view_obstacle_positions g). \<forall>c \<in> set vs.
      0 \<le> x c \<and> x c < 20 \<and> 0 \<le> y c \<and> y c < 20)"
proof -
  have "0 \<le> x c \<and> x c < 20 \<and> 0 \<le> y c \<and> y c < 20" if "c \<in> set (get_view_state ob')" for c ob'
    using get_view_state_valid [OF that]
    by (simp add: is_valid_grid_position_def Grid_size_x_def Grid_size_y_def)
  then show ?thesis
    by (auto simp: get_view_obstacle_positions_def)
qed

lemma view_state_16_10_EAST:
  "get_view_state (new_Obstacle 16 10 EAST 1) =
     [new_CellState 18 10 WEST (ObstacleId 1) 50, new_CellState 19 10 WEST (ObstacleId 1) 25]"
  by (simp add: get_view_state_def view_cells_def view_costs_def consts_defs
      is_valid_grid_position_def Grid_size_x_def Grid_size_y_def new_Obstacle_def
      new_CellState_def)

lemma view_positions_16_10_EAST:
  "get_view_obstacle_positions
     \<lparr>size_x = 30, size_y = 30, obstacles = [new_Obstacle 16 10 EAST 1]\<rparr>
     = [[new_CellState 19 10 WEST (ObstacleId 1) 25]]"
  by (simp add: get_view_obstacle_positions_def view_state_16_10_EAST reachable_def
      is_valid_coord_def)
     (simp add: new_Obstacle_def new_CellState_def)

theorem view_state_default_bounds_witness:
  "get_view_obstacle_positions
     \<lparr>size_x = 30, size_y = 30, obstacles = [new_Obstacle 16 10 EAST 1]\<rparr>
     = [[new_CellState 19 10 WEST (ObstacleId 1) 25]] \<and>
   reachable \<lparr>size_x = 30, size_y = 30, obstacles = [new_Obstacle 16 10 EAST 1]\<rparr> 20 11 \<and>
   reachable \<lparr>size_x = 30, size_y = 30, obstacles = [new_Obstacle 16 10 EAST 1]\<rparr> 20 9 \<and>
   reachable \<lparr>size_x = 30, size_y = 30, obstacles = [new_Obstacle 16 10 EAST 1]\<rparr> 20 10 \<and>
   x (new_CellState 19 10 WEST (ObstacleId 1) 25) < 20"
proof -
  let ?g = "\<lparr>size_x = 30, size_y = 30, obstacles = [new_Obstacle 16 10 EAST 1]\<rparr>"
  let ?c = "new_CellState 19 10 WEST (ObstacleId 1) 25"
  have "\<forall>vs \<in> set (get_view_obstacle_positions ?g). \<forall>c \<in> set vs. x c < 20"
    using view_state_default_bounds [of "new_Obstacle 16 10 EAST 1" ?g] by blast
  then have "x ?c < 20"
    unfolding view_positions_16_10_EAST by simp
  moreover have "reachable ?g 20 11 \<and> reachable ?g 20 9 \<and> reachable ?g 20 10"
    by (simp add: reachable_def is_valid_coord_def new_Obstacle_def)
  ultimately show ?thesis
    using view_positions_16_10_EAST by simp
qed

text \<open>
  The slot table of a facing, as the source lays it out: the robot faces \<open>opposite f\<close>;
  \<open>ahead f\<close> is the unit step along the facing; \<open>lateral_first f\<close> is the sideways unit step
  of slot 1 (slot 2 takes the other side).  Slot 1 lies at the smaller \<open>x\<close> for an obstacle
  facing north and at the larger perpendicular coordinate for the three other facings.
\<close>

fun opposite :: "Direction \<Rightarrow> Direction" where
  "opposite NORTH = SOUTH"
| "opposite SOUTH = NORTH"
| "opposite EAST = WEST"
| "opposite WEST = EAST"
| "opposite SKIP = SKIP"

fun ahead :: "Direction \<Rightarrow> int \<times> int" where
  "ahead NORTH = (0, 1)"
| "ahead SOUTH = (0, -1)"
| "ahead EAST = (1, 0)"
| "ahead WEST = (-1, 0)"
| "ahead SKIP = (0, 0)"

fun lateral_first :: "Direction \<Rightarrow> int \<times> int" where
  "lateral_first NORTH = (-1, 0)"
| "lateral_first SOUTH = (1, 0)"
| "lateral_first EAST = (0, 1)"
| "lateral_first WEST = (0, 1)"
| "lateral_first SKIP = (0, 0)"

definition slot :: "Obstacle \<Rightarrow> int \<Rightarrow> int \<Rightarrow> int \<Rightarrow> CellState" where
  "slot ob k l p =
     new_CellState
       (x ob + k * fst (ahead (direction ob)) + l * fst (lateral_first (direction ob)))
       (y ob + k * snd (ahead (direction ob)) + l * snd (lateral_first (direction ob)))
       (opposite (direction ob)) (ObstacleId (obstacle_id ob)) p"

definition view_slots :: "Obstacle \<Rightarrow> CellState list" where
  "view_slots ob =
     [slot ob 2 0 50, slot ob 4 1 100, slot ob 4 (-1) 100, slot ob 3 0 25, slot ob 4 0 0]"

lemma get_view_state_slots:
  "direction ob \<noteq> SKIP \<Longrightarrow>
   get_view_state ob = filter (\<lambda>c. 0 \<le> x c \<and> x c < 20 \<and> 0 \<le> y c \<and> y c < 20) (view_slots ob)"
  by (cases "direction ob")
     (simp_all add: get_view_state_def view_slots_def slot_def view_cells_def view_costs_def
        consts_defs is_valid_grid_position_def Grid_size_x_def Grid_size_y_def new_CellState_def)

lemma get_view_obstacle_positions_filter:
  "get_view_obstacle_positions g =
     map (\<lambda>ob. filter (\<lambda>c. (0 \<le> x c \<and> x c < 20 \<and> 0 \<le> y c \<and> y c < 20) \<and> reachable g (x c) (y c))
                 (view_slots ob))
       (filter (\<lambda>ob. direction ob \<noteq> SKIP) (obstacles g))"
  unfolding get_view_obstacle_positions_def
  by (rule map_cong [OF refl]) (simp add: get_view_state_slots conj_commute)

text \<open>
  Claim C8, as amended.  The obstacles whose direction is SKIP contribute no candidate
  list.  For every other obstacle, facing \<open>f\<close>, the candidates all face \<open>opposite f\<close>,
  carry the obstacle id, and are the five slots, in slot order: ahead by 2 (penalty 50),
  ahead by 4 and one step sideways (penalty 100), ahead by 4 and one step to the other
  side (penalty 100), ahead by 3 (penalty 25), ahead by 4 (penalty 0); slot 1 is at
  \<open>x - 1\<close> for a north-facing obstacle, at \<open>x + 1\<close> for a south-facing one and at \<open>y + 1\<close>
  for east and west.  A slot is dropped, the order of the others kept, when it lies
  outside the default square \<open>0 \<le> x < 20\<close>, \<open>0 \<le> y < 20\<close> or is not \<open>reachable\<close> in the grid.
\<close>

theorem get_view_obstacle_positions_slots:
  "get_view_obstacle_positions g =
     map (\<lambda>ob. filter (\<lambda>c. (0 \<le> x c \<and> x c < 20 \<and> 0 \<le> y c \<and> y c < 20) \<and> reachable g (x c) (y c))
                 (view_slots ob))
       (filter (\<lambda>ob. direction ob \<noteq> SKIP) (obstacles g))"
  unfolding get_view_obstacle_positions_def
  by (rule map_cong [OF refl]) (simp add: get_view_state_slots conj_commute)

theorem get_view_obstacle_positions_slots_witness:
  "get_view_obstacle_positions
     \<lparr>size_x = 20, size_y = 20,
      obstacles = [new_Obstacle 10 10 SKIP 1, new_Obstacle 5 14 NORTH 2]\<rparr>
   = [[new_CellState 4 18 SOUTH (ObstacleId 2) 100, new_CellState 6 18 SOUTH (ObstacleId 2) 100,
       new_CellState 5 17 SOUTH (ObstacleId 2) 25, new_CellState 5 18 SOUTH (ObstacleId 2) 0]]"
  unfolding get_view_obstacle_positions_slots
  by (simp add: view_slots_def slot_def reachable_def is_valid_coord_def new_Obstacle_def
      new_CellState_def)

text \<open>
  The claim as stated puts slot 1 at lateral +1 and slot 2 at lateral -1 for every
  facing.  For an obstacle at (10, 10) facing north the source puts slot 1 at \<open>x = 9\<close>
  and slot 2 at \<open>x = 11\<close>; for one facing south, slot 1 at \<open>x = 11\<close> and slot 2 at \<open>x = 9\<close>.
  Facing west, slot 1 is at \<open>y = 11\<close>, the side that a quarter turn of the north table
  would give to slot 2: no single orientation of "lateral +1" fits all the four tables.
\<close>

theorem view_slot_order_counterexample:
  "map (\<lambda>c. (x c, y c)) (get_view_state (new_Obstacle 10 10 NORTH 1))
     = [(10, 12), (9, 14), (11, 14), (10, 13), (10, 14)] \<and>
   map (\<lambda>c. (x c, y c)) (get_view_state (new_Obstacle 10 10 SOUTH 1))
     = [(10, 8), (11, 6), (9, 6), (10, 7), (10, 6)] \<and>
   map (\<lambda>c. (x c, y c)) (get_view_state (new_Obstacle 10 10 EAST 1))
     = [(12, 10), (14, 11), (14, 9), (13, 10), (14, 10)] \<and>
   map (\<lambda>c. (x c, y c)) (get_view_state (new_Obstacle 10 10 WEST 1))
     = [(8, 10), (6, 11), (6, 9), (7, 10), (6, 10)]"
  by (simp add: get_view_state_def view_cells_def view_costs_def consts_defs
      is_valid_grid_position_def Grid_size_x_def Grid_size_y_def new_Obstacle_def
      new_CellState_def)

section \<open>Enumerating the slot assignments (algorithms/algo.py)\<close>

text \<open>
  \<open>MazeSolver._generate_combinations\<close>: a depth-first enumeration with one level per
  selected obstacle.  The list \<open>current\<close> is extended before each recursive call and
  restored after it; \<open>result\<close> is the list the calls append to.  The integer \<open>num_iters\<close>
  is a parameter passed by value: each level decrements its own copy once, before its
  loop, and hands the same decremented value to every recursive call of that loop.
  \<open>view_positions[index]\<close> with an index beyond the list raises \<open>IndexError\<close>.
\<close>

fun generate_combinations ::
    "'a list list \<Rightarrow> nat \<Rightarrow> nat list \<Rightarrow> nat list list \<Rightarrow> nat \<Rightarrow> error + nat list list"
  and generate_combinations_loop ::
    "'a list list \<Rightarrow> nat \<Rightarrow> nat list \<Rightarrow> nat list list \<Rightarrow> nat \<Rightarrow> nat list \<Rightarrow> error + nat list list"
where
  "generate_combinations view_positions index current result num_iters =
     (if index = length view_positions then Inr (result @ [current])
      else (case num_iters of
              0 \<Rightarrow> Inr result
            | Suc n \<Rightarrow>
                if index < length view_positions
                then generate_combinations_loop view_positions index current result n
                       [0..<length (view_positions ! index)]
                else Inl IndexError))"
| "generate_combinations_loop view_positions index current result n [] = Inr result"
| "generate_combinations_loop view_positions index current result n (i # rest) =
     (case generate_combinations view_positions (index + 1) (current @ [i]) result n of
        Inl e \<Rightarrow> Inl e
      | Inr result' \<Rightarrow> generate_combinations_loop view_positions index current result' n rest)"


text \<open>All the assignments for candidate lists of the given lengths, in depth-first order.\<close>

fun all_combinations :: "nat list \<Rightarrow> nat list list" where
  "all_combinations [] = [[]]"
| "all_combinations (n # ns) = concat (map (\<lambda>i. map ((#) i) (all_combinations ns)) [0..<n])"

lemma length_all_combinations: "length (all_combinations ns) = prod_list ns"
proof (induction ns)
  case Nil
  then show ?case by simp
next
  case (Cons n ns)
  have "length (concat (map (\<lambda>i. map ((#) i) (all_combinations ns)) is)) = length is * prod_list ns" for "is" :: "nat list"
    by (induction "is") (simp_all add: Cons.IH)
  then show ?case by simp
qed

lemma generate_combinations_complete:
  "index \<le> length vps \<Longrightarrow> length vps - index \<le> num_iters \<Longrightarrow>
   generate_combinations vps index current result num_iters =
     Inr (result @ map (\<lambda>c. current @ c) (all_combinations (map length (drop index vps))))"
  "index < length vps \<Longrightarrow> length vps - index - 1 \<le> n \<Longrightarrow>
   generate_combinations_loop vps index current result n is =
     Inr (result @ concat (map (\<lambda>i. map (\<lambda>c. current @ i # c)
            (all_combinations (map length (drop (index + 1) vps)))) is))"
proof (induction vps index current result num_iters and vps index current result n "is"
    rule: generate_combinations_generate_combinations_loop.induct)
  case (1 view_positions index current result num_iters)
  show ?case
  proof (cases "index = length view_positions")
    case True
    then show ?thesis by simp
  next
    case False
    with 1(2,3) obtain n where n: "num_iters = Suc n" and lt: "index < length view_positions"
      by (cases num_iters) auto
    have d: "drop index view_positions = view_positions ! index # drop (index + 1) view_positions"
      using lt by (simp add: Cons_nth_drop_Suc)
    have "generate_combinations_loop view_positions index current result n
            [0..<length (view_positions ! index)] =
          Inr (result @ concat (map (\<lambda>i. map (\<lambda>c. current @ i # c)
            (all_combinations (map length (drop (index + 1) view_positions))))
            [0..<length (view_positions ! index)]))"
      using 1(1)[OF False n lt lt] 1(3) n by simp
    then show ?thesis
      using False n lt by (simp add: d map_concat comp_def)
  qed
next
  case (2 view_positions index current result n)
  then show ?case by simp
next
  case (3 view_positions index current result n i rest)
  have a: "generate_combinations view_positions (index + 1) (current @ [i]) result n =
     Inr (result @ map (\<lambda>c. (current @ [i]) @ c)
        (all_combinations (map length (drop (index + 1) view_positions))))"
    using 3(1) 3(3,4) by simp
  show ?case
    using 3(2)[OF a 3(3,4)] a by simp
qed

definition six_obstacle_grid :: Grid where
  "six_obstacle_grid =
     \<lparr>size_x = 20, size_y = 20,
      obstacles = [new_Obstacle 3 1 NORTH 1, new_Obstacle 8 1 NORTH 2, new_Obstacle 13 1 NORTH 3,
                   new_Obstacle 3 9 NORTH 4, new_Obstacle 8 9 NORTH 5, new_Obstacle 13 9 NORTH 6]\<rparr>"

lemma six_obstacle_grid_views:
  "map length (get_view_obstacle_positions six_obstacle_grid) = [4, 4, 4, 4, 4, 4]"
  unfolding get_view_obstacle_positions_filter
  by (simp add: six_obstacle_grid_def view_slots_def slot_def reachable_def is_valid_coord_def
      new_Obstacle_def new_CellState_def)

text \<open>
  Claim C4 says that at most \<open>ITERATIONS = 2000\<close> assignments are enumerated.  The
  budget is decremented once per level of the recursion and not once per assignment, so
  it bounds the number of selected obstacles and not the number of assignments: with
  no more than 2000 obstacles the enumeration is complete
  (\<open>generate_combinations_complete\<close>).  On a 20 by 20 grid with six obstacles that have
  four reachable candidates each, the call of \<open>get_optimal_path\<close> for the full subset
  enumerates \<open>4 ^ 6 = 4096\<close> assignments.
\<close>

theorem generate_combinations_exceeds_budget:
  "\<exists>r. generate_combinations (get_view_obstacle_positions six_obstacle_grid) 0 [] [] ITERATIONS
         = Inr r \<and> length r = 4096"
proof -
  define r where
    "r = all_combinations (map length (get_view_obstacle_positions six_obstacle_grid))"
  have len: "length (get_view_obstacle_positions six_obstacle_grid) = 6"
    using arg_cong [OF six_obstacle_grid_views, of length] by simp
  have "generate_combinations (get_view_obstacle_positions six_obstacle_grid) 0 [] [] ITERATIONS
      = Inr ([] @ map (\<lambda>c. [] @ c)
          (all_combinations (map length (drop 0 (get_view_obstacle_positions six_obstacle_grid)))))"
    by (rule generate_combinations_complete(1)) (simp_all add: len ITERATIONS_def)
  then have "generate_combinations (get_view_obstacle_positions six_obstacle_grid) 0 [] []
      ITERATIONS = Inr r"
    by (simp add: r_def del: generate_combinations.simps all_combinations.simps)
  moreover have "length r = 4096"
    unfolding r_def length_all_combinations six_obstacle_grid_views by simp
  ultimately show ?thesis by blast
qed

section \<open>Motion reconstruction (algorithms/algo.py)\<close>

text \<open>
  A pose is the triple \<open>(x, y, direction)\<close>; the motion table is keyed by the six
  components of a directed pair of poses.
\<close>

type_synonym pose = "int \<times> int \<times> Direction"
type_synonym edge = "int \<times> int \<times> Direction \<times> int \<times> int \<times> Direction"
type_synonym motion_table = "edge \<rightharpoonup> Motion"


























section \<open>Clearance predicates for turns and half turns (entities/entity.py)\<close>

text \<open>
  \<open>half_turn_reachable\<close>: both end points interior; the rectangle spanned by the two
  points, padded by \<open>2 * EXPANDED_CELL\<close> on the shorter axis, must hold no obstacle.
\<close>

definition half_turn_reachable :: "Grid \<Rightarrow> int \<Rightarrow> int \<Rightarrow> int \<Rightarrow> int \<Rightarrow> bool" where
  "half_turn_reachable g px py new_x new_y =
     (if \<not> is_valid_coord g px py \<or> \<not> is_valid_coord g new_x new_y then False
      else
        let padding = 2 * EXPANDED_CELL;
            lo_x = (if new_x < px then new_x else px);
            hi_x = (if new_x < px then px else new_x);
            lo_y = (if new_y < py then new_y else py);
            hi_y = (if new_y < py then py else new_y)
        in \<not> list_ex (\<lambda>obs.
               if \<bar>lo_x - hi_x\<bar> > \<bar>lo_y - hi_y\<bar>
               then lo_x \<le> x obs \<and> x obs \<le> hi_x \<and> lo_y - padding \<le> y obs \<and> y obs \<le> hi_y + padding
               else lo_x - padding \<le> x obs \<and> x obs \<le> hi_x + padding \<and> lo_y \<le> y obs \<and> y obs \<le> hi_y)
             (obstacles g))"

text \<open>
  The three points near the curve of a turn.  The source computes them with true division;
  they are multiples of a quarter, modelled as rationals.
\<close>

definition get_turn_checking_points ::
    "int \<Rightarrow> int \<Rightarrow> int \<Rightarrow> int \<Rightarrow> Direction \<Rightarrow> error + (rat \<times> rat) list" where
  "get_turn_checking_points px py new_x new_y d =
     (let mid_x = (of_int px + of_int new_x) / 2; mid_y = (of_int py + of_int new_y) / 2 in
      if d = NORTH \<or> d = SOUTH then
        let tr_x = of_int px; tr_y = of_int new_y in
        Inr [((of_int px + mid_x) / 2, mid_y),
             ((tr_x + mid_x) / 2, (tr_y + mid_y) / 2),
             (mid_x, (of_int new_y + mid_y) / 2)]
      else if d = EAST \<or> d = WEST then
        let tr_x = of_int new_x; tr_y = of_int py in
        Inr [(mid_x, (of_int py + mid_y) / 2),
             ((tr_x + mid_x) / 2, (tr_y + mid_y) / 2),
             ((of_int new_x + mid_x) / 2, mid_y)]
      else Inl ValueError)"

text \<open>
  \<open>math.sqrt(h ** 2 + v ** 2) < padding\<close> for a positive padding, in exact arithmetic:
  the comparison of the squares.
\<close>

definition closer_than :: "rat \<Rightarrow> rat \<Rightarrow> int \<Rightarrow> bool" where
  "closer_than h v padding = (h * h + v * v < of_int padding * of_int padding)"

definition turn_reachable ::
    "Grid \<Rightarrow> int \<Rightarrow> int \<Rightarrow> int \<Rightarrow> int \<Rightarrow> Direction \<Rightarrow> error + bool" where
  "turn_reachable g px py new_x new_y d =
     (case get_turn_checking_points px py new_x new_y d of
        Inl e \<Rightarrow> Inl e
      | Inr points \<Rightarrow>
          if \<not> is_valid_coord g px py \<or> \<not> is_valid_coord g new_x new_y then Inr False
          else Inr (\<not> list_ex (\<lambda>obstacle.
                 closer_than (of_int (x obstacle - px)) (of_int (y obstacle - py)) TURN_PADDING \<or>
                 closer_than (of_int (x obstacle - new_x)) (of_int (y obstacle - new_y))
                   TURN_PADDING \<or>
                 list_ex (\<lambda>point.
                     closer_than (of_int (x obstacle) - fst point) (of_int (y obstacle) - snd point)
                       MID_TURN_PADDING)
                   points)
               (obstacles g)))"

section \<open>The neighbours of a pose (algorithms/algo.py)\<close>

definition calculate_safe_cost :: "Grid \<Rightarrow> int \<Rightarrow> int \<Rightarrow> int" where
  "calculate_safe_cost g new_x new_y =
     (let padding = 2 in
      if list_ex (\<lambda>obj. \<bar>x obj - new_x\<bar> \<le> padding \<and> \<bar>y obj - new_y\<bar> \<le> padding) (obstacles g)
      then SAFE_COST else 0)"

definition get_half_turn_displacement :: "Direction \<Rightarrow> error + (int \<times> int)" where
  "get_half_turn_displacement d =
     (if d = NORTH then Inr (HALF_TURNS ! 1, HALF_TURNS ! 0)
      else if d = SOUTH then Inr (- (HALF_TURNS ! 1), - (HALF_TURNS ! 0))
      else if d = EAST then Inr (HALF_TURNS ! 0, HALF_TURNS ! 1)
      else if d = WEST then Inr (- (HALF_TURNS ! 0), - (HALF_TURNS ! 1))
      else Inl ValueError)"

text \<open>A neighbour: \<open>(new_x, new_y, new_direction, safe_cost, motion)\<close>.\<close>

type_synonym neighbor = "int \<times> int \<times> Direction \<times> int \<times> Motion"

definition straight_neighbor ::
    "Grid \<Rightarrow> int \<Rightarrow> int \<Rightarrow> Direction \<Rightarrow> Motion \<Rightarrow> neighbor list" where
  "straight_neighbor g nx ny md motion =
     (if reachable g nx ny then [(nx, ny, md, calculate_safe_cost g nx ny, motion)] else [])"

definition half_turn_neighbor ::
    "Grid \<Rightarrow> int \<Rightarrow> int \<Rightarrow> int \<Rightarrow> int \<Rightarrow> Direction \<Rightarrow> Motion \<Rightarrow> neighbor list" where
  "half_turn_neighbor g px py nx ny md motion =
     (if half_turn_reachable g px py nx ny
      then [(nx, ny, md, calculate_safe_cost g nx ny, motion)] else [])"

definition turn_neighbor ::
    "Grid \<Rightarrow> int \<Rightarrow> int \<Rightarrow> Direction \<Rightarrow> int \<Rightarrow> int \<Rightarrow> Direction \<Rightarrow> Motion
       \<Rightarrow> error + neighbor list" where
  "turn_neighbor g px py d nx ny md motion =
     (case turn_reachable g px py nx ny d of
        Inl e \<Rightarrow> Inl e
      | Inr ok \<Rightarrow>
          Inr (if ok then [(nx, ny, md, calculate_safe_cost g nx ny + 10, motion)] else []))"

text \<open>The two turns of one pair of headings: the forward turn, then the reverse turn.\<close>

definition turn_pair ::
    "Grid \<Rightarrow> int \<Rightarrow> int \<Rightarrow> Direction \<Rightarrow> Direction \<Rightarrow> int \<times> int \<times> Motion \<Rightarrow> int \<times> int \<times> Motion
       \<Rightarrow> error + neighbor list" where
  "turn_pair g px py d md fwd rev_turn =
     (case turn_neighbor g px py d (fst fwd) (fst (snd fwd)) md (snd (snd fwd)) of
        Inl e \<Rightarrow> Inl e
      | Inr ns1 \<Rightarrow>
         (case turn_neighbor g px py d (fst rev_turn) (fst (snd rev_turn)) md
                 (snd (snd rev_turn)) of
            Inl e \<Rightarrow> Inl e
          | Inr ns2 \<Rightarrow> Inr (ns1 @ ns2)))"

text \<open>The body of the loop over \<open>MOVE_DIRECTION\<close>, for one entry \<open>(dx, dy, md)\<close>.\<close>

definition neighbors_for_move ::
    "Grid \<Rightarrow> int \<Rightarrow> int \<Rightarrow> Direction \<Rightarrow> int \<times> int \<times> Direction \<Rightarrow> error + neighbor list" where
  "neighbors_for_move g px py d move =
     (let dx = fst move; dy = fst (snd move); md = snd (snd move) in
      if md = d then
        (case get_half_turn_displacement d of
           Inl e \<Rightarrow> Inl e
         | Inr delta \<Rightarrow>
            let delta_x = fst delta; delta_y = snd delta in
            Inr (straight_neighbor g (px + dx) (py + dy) md FORWARD
               @ straight_neighbor g (px - dx) (py - dy) md REVERSE
               @ (if d = NORTH \<or> d = SOUTH then
                    half_turn_neighbor g px py (px + delta_x) (py + delta_y) md FORWARD_OFFSET_RIGHT
                  @ half_turn_neighbor g px py (px - delta_x) (py + delta_y) md FORWARD_OFFSET_LEFT
                  @ half_turn_neighbor g px py (px + delta_x) (py - delta_y) md REVERSE_OFFSET_RIGHT
                  @ half_turn_neighbor g px py (px - delta_x) (py - delta_y) md REVERSE_OFFSET_LEFT
                  else
                    half_turn_neighbor g px py (px + delta_x) (py - delta_y) md FORWARD_OFFSET_RIGHT
                  @ half_turn_neighbor g px py (px + delta_x) (py + delta_y) md FORWARD_OFFSET_LEFT
                  @ half_turn_neighbor g px py (px - delta_x) (py - delta_y) md REVERSE_OFFSET_RIGHT
                  @ half_turn_neighbor g px py (px - delta_x) (py + delta_y) md REVERSE_OFFSET_LEFT)))
      else
        let delta_big = TURNS ! 0; delta_small = TURNS ! 1 in
        if d = NORTH \<and> md = EAST then
          turn_pair g px py d md (px + delta_big, py + delta_small, FORWARD_RIGHT_TURN)
            (px - delta_small, py - delta_big, REVERSE_LEFT_TURN)
        else if d = EAST \<and> md = NORTH then
          turn_pair g px py d md (px + delta_small, py + delta_big, FORWARD_LEFT_TURN)
            (px - delta_big, py - delta_small, REVERSE_RIGHT_TURN)
        else if d = EAST \<and> md = SOUTH then
          turn_pair g px py d md (px + delta_small, py - delta_big, FORWARD_RIGHT_TURN)
            (px - delta_big, py + delta_small, REVERSE_LEFT_TURN)
        else if d = SOUTH \<and> md = EAST then
          turn_pair g px py d md (px + delta_big, py - delta_small, FORWARD_LEFT_TURN)
            (px - delta_small, py + delta_big, REVERSE_RIGHT_TURN)
        else if d = SOUTH \<and> md = WEST then
          turn_pair g px py d md (px - delta_big, py - delta_small, FORWARD_RIGHT_TURN)
            (px + delta_small, py + delta_big, REVERSE_LEFT_TURN)
        else if d = WEST \<and> md = SOUTH then
          turn_pair g px py d md (px - delta_small, py - delta_big, FORWARD_LEFT_TURN)
            (px + delta_big, py + delta_small, REVERSE_RIGHT_TURN)
        else if d = WEST \<and> md = NORTH then
          turn_pair g px py d md (px - delta_small, py + delta_big, FORWARD_RIGHT_TURN)
            (px + delta_big, py - delta_small, REVERSE_LEFT_TURN)
        else if d = NORTH \<and> md = WEST then
          turn_pair g px py d md (px - delta_big, py + delta_small, FORWARD_LEFT_TURN)
            (px + delta_small, py - delta_big, REVERSE_RIGHT_TURN)
        else Inr [])"

fun neighbors_loop ::
    "Grid \<Rightarrow> int \<Rightarrow> int \<Rightarrow> Direction \<Rightarrow> (int \<times> int \<times> Direction) list \<Rightarrow> neighbor list
       \<Rightarrow> error + neighbor list" where
  "neighbors_loop g px py d [] neighbors = Inr neighbors"
| "neighbors_loop g px py d (move # moves) neighbors =
     (case neighbors_for_move g px py d move of
        Inl e \<Rightarrow> Inl e
      | Inr ns \<Rightarrow> neighbors_loop g px py d moves (neighbors @ ns))"

definition get_neighboring_states ::
    "Grid \<Rightarrow> int \<Rightarrow> int \<Rightarrow> Direction \<Rightarrow> error + neighbor list" where
  "get_neighboring_states g px py d = neighbors_loop g px py d MOVE_DIRECTION []"

section \<open>The pose-space search (algorithms/algo.py)\<close>

text \<open>
  The priority queue holds tuples \<open>(total_cost, x, y, direction)\<close>.  Python compares
  tuples lexicographically and a \<open>Direction\<close> as its integer, so \<open>heappop\<close> returns the
  least tuple in that order, whatever the layout of the heap: the queue is modelled as
  the list of its entries, \<open>heappush\<close> appends and \<open>heappop\<close> removes the least entry.
\<close>

type_synonym entry = "int \<times> int \<times> int \<times> Direction"

definition entry_pose :: "entry \<Rightarrow> pose" where
  "entry_pose en = snd en"

definition entry_less :: "entry \<Rightarrow> entry \<Rightarrow> bool" where
  "entry_less a b =
     (let fa = fst a; xa = fst (snd a); ya = fst (snd (snd a));
          da = Direction_value (snd (snd (snd a)));
          fb = fst b; xb = fst (snd b); yb = fst (snd (snd b));
          db = Direction_value (snd (snd (snd b)))
      in fa < fb \<or> (fa = fb \<and> (xa < xb \<or> (xa = xb \<and> (ya < yb \<or> (ya = yb \<and> da < db))))))"

fun heap_min :: "entry \<Rightarrow> entry list \<Rightarrow> entry" where
  "heap_min m [] = m"
| "heap_min m (en # ens) = heap_min (if entry_less en m then en else m) ens"

definition heappop :: "entry list \<Rightarrow> entry \<times> entry list" where
  "heappop h = (let m = heap_min (hd h) (tl h) in (m, remove1 m h))"

record astar_state =
  heap :: "entry list"
  visited :: "pose set"
  g_dist :: "pose \<rightharpoonup> int"
  parent_dict :: "pose \<rightharpoonup> pose"
  motions :: motion_table

definition estimate_distance :: "CellState \<Rightarrow> CellState \<Rightarrow> int" where
  "estimate_distance start_state end_state =
     (let horizontal_distance = x start_state - x end_state;
          vertical_distance = y start_state - y end_state
      in \<bar>horizontal_distance\<bar> + \<bar>vertical_distance\<bar>)"

text \<open>
  The cost of a motion from heading \<open>d\<close> to heading \<open>new_direction\<close>: the product of the
  rotation, reverse and half-turn factors, each replaced by 1 when it is 0.
\<close>

definition motion_cost :: "Direction \<Rightarrow> Direction \<Rightarrow> Motion \<Rightarrow> error + int" where
  "motion_cost d new_direction motion =
     (case rotation_cost d new_direction of
        Inl e \<Rightarrow> Inl e
      | Inr rc \<Rightarrow>
         (case reverse_cost motion of
            Inl e \<Rightarrow> Inl e
          | Inr rv \<Rightarrow>
              let rotation = (if TURN_FACTOR * rc = 0 then 1 else TURN_FACTOR * rc);
                  reversing = (if REVERSE_FACTOR * rv = 0 then 1 else REVERSE_FACTOR * rv);
                  half_turning = (if HALF_TURN_FACTOR * half_turn_cost motion = 0 then 1
                                  else HALF_TURN_FACTOR * half_turn_cost motion)
              in Inr (reversing * half_turning * rotation)))"

text \<open>
  The body of the loop over the neighbours of the pose \<open>u\<close>, whose distance is \<open>dist_u\<close>:
  the relaxation of one neighbour.  \<open>en\<close> is the end state of the search.
\<close>

definition relax ::
    "CellState \<Rightarrow> pose \<Rightarrow> int \<Rightarrow> neighbor \<Rightarrow> astar_state \<Rightarrow> error + astar_state" where
  "relax en u dist_u nb st =
     (let new_x = fst nb; new_y = fst (snd nb); new_direction = fst (snd (snd nb));
          safe_cost = fst (snd (snd (snd nb))); motion = snd (snd (snd (snd nb)));
          new = (new_x, new_y, new_direction)
      in
      if new \<in> visited st then Inr st
      else
        let forward_key = (fst u, fst (snd u), snd (snd u), new_x, new_y, new_direction);
            reverse_key = (new_x, new_y, new_direction, fst u, fst (snd u), snd (snd u));
            st1 = (if motions st forward_key = None \<and> motions st reverse_key = None
                   then st\<lparr>motions := (motions st)(forward_key \<mapsto> motion)\<rparr> else st)
        in
        case motion_cost (snd (snd u)) new_direction motion of
          Inl e \<Rightarrow> Inl e
        | Inr mc \<Rightarrow>
            let movement_cost = mc + safe_cost;
                screenshot_cost = (if is_eq en new_x new_y new_direction then penalty en else 0);
                total_cost = dist_u + movement_cost + screenshot_cost
                  + estimate_distance (new_CellState new_x new_y new_direction (Tags []) 0) en
            in
            if (case g_dist st1 new of None \<Rightarrow> True | Some old \<Rightarrow> old > dist_u + movement_cost)
            then Inr (st1\<lparr>g_dist := (g_dist st1)(new \<mapsto> dist_u + movement_cost + screenshot_cost),
                          heap := heap st1 @ [(total_cost, new_x, new_y, new_direction)],
                          parent_dict := (parent_dict st1)(new \<mapsto> u)\<rparr>)
            else Inr st1)"

fun relax_all ::
    "CellState \<Rightarrow> pose \<Rightarrow> int \<Rightarrow> neighbor list \<Rightarrow> astar_state \<Rightarrow> error + astar_state" where
  "relax_all en u dist_u [] st = Inr st"
| "relax_all en u dist_u (nb # nbs) st =
     (case relax en u dist_u nb st of
        Inl e \<Rightarrow> Inl e
      | Inr st' \<Rightarrow> relax_all en u dist_u nbs st')"

text \<open>
  The expansion of a pose popped from the queue that is neither visited nor the end:
  it is marked visited, its distance read, and its neighbours relaxed.
\<close>

definition expand :: "Grid \<Rightarrow> CellState \<Rightarrow> pose \<Rightarrow> astar_state \<Rightarrow> error + astar_state" where
  "expand g en u st =
     (let st1 = st\<lparr>visited := insert u (visited st)\<rparr> in
      case g_dist st1 u of
        None \<Rightarrow> Inl KeyError
      | Some dist_u \<Rightarrow>
         (case get_neighboring_states g (fst u) (fst (snd u)) (snd (snd u)) of
            Inl e \<Rightarrow> Inl e
          | Inr nbs \<Rightarrow> relax_all en u dist_u nbs st1))"

definition nodes :: "Grid \<Rightarrow> pose set" where
  "nodes g = {u. is_valid_coord g (fst u) (fst (snd u))}"

lemma finite_Direction: "finite (UNIV :: Direction set)"
proof -
  have "(UNIV :: Direction set) \<subseteq> {NORTH, SOUTH, EAST, WEST, SKIP}"
    using Direction.exhaust by auto
  then show ?thesis by (rule finite_subset) simp
qed

lemma finite_nodes: "finite (nodes g)"
proof -
  have "nodes g \<subseteq> {1..size_x g} \<times> {1..size_y g} \<times> UNIV"
    by (auto simp: nodes_def is_valid_coord_def split: if_splits)
  then show ?thesis
    by (rule finite_subset) (simp add: finite_Direction)
qed

lemma heap_min_in: "heap_min m ens \<in> insert m (set ens)"
  by (induction ens arbitrary: m) (auto split: if_splits)

lemma heappop_in: "h \<noteq> [] \<Longrightarrow> fst (heappop h) \<in> set h"
  using heap_min_in [of "hd h" "tl h"] by (cases h) (auto simp: heappop_def Let_def)

definition nb_pose :: "neighbor \<Rightarrow> pose" where
  "nb_pose nb = (fst nb, fst (snd nb), fst (snd (snd nb)))"

lemma relax_visited: "relax en u dist_u nb st = Inr st' \<Longrightarrow> visited st' = visited st"
  by (auto simp: relax_def Let_def split: if_splits sum.splits)

lemma relax_heap:
  "relax en u dist_u nb st = Inr st' \<Longrightarrow>
   entry_pose ` set (heap st') \<subseteq> entry_pose ` set (heap st) \<union> {nb_pose nb}"
  by (auto simp: relax_def Let_def entry_pose_def nb_pose_def split: if_splits sum.splits)

lemma relax_all_visited:
  "relax_all en u dist_u nbs st = Inr st' \<Longrightarrow> visited st' = visited st"
  by (induction nbs arbitrary: st) (auto split: sum.splits dest: relax_visited)

lemma relax_all_heap:
  "relax_all en u dist_u nbs st = Inr st' \<Longrightarrow>
   entry_pose ` set (heap st') \<subseteq> entry_pose ` set (heap st) \<union> nb_pose ` set nbs"
proof (induction nbs arbitrary: st)
  case Nil
  then show ?case by simp
next
  case (Cons nb nbs)
  then obtain st1 where 1: "relax en u dist_u nb st = Inr st1"
    and 2: "relax_all en u dist_u nbs st1 = Inr st'"
    by (auto split: sum.splits)
  from relax_heap [OF 1] Cons.IH [OF 2] show ?case
    by (simp only: set_simps image_insert) blast
qed

lemma straight_neighbor_nodes: "nb \<in> set (straight_neighbor g nx ny md motion) \<Longrightarrow> nb_pose nb \<in> nodes g"
  by (auto simp: straight_neighbor_def nodes_def nb_pose_def reachable_def split: if_splits)

lemma half_turn_neighbor_nodes:
  "nb \<in> set (half_turn_neighbor g px py nx ny md motion) \<Longrightarrow> nb_pose nb \<in> nodes g"
  by (auto simp: half_turn_neighbor_def nodes_def nb_pose_def half_turn_reachable_def
      split: if_splits)

lemma turn_neighbor_nodes:
  "turn_neighbor g px py d nx ny md motion = Inr nbs \<Longrightarrow> nb \<in> set nbs \<Longrightarrow> nb_pose nb \<in> nodes g"
  by (auto simp: turn_neighbor_def turn_reachable_def nodes_def nb_pose_def
      split: if_splits sum.splits)

lemma turn_pair_nodes:
  "turn_pair g px py d md fwd rev_turn = Inr nbs \<Longrightarrow> nb \<in> set nbs \<Longrightarrow> nb_pose nb \<in> nodes g"
  by (auto simp: turn_pair_def split: sum.splits dest: turn_neighbor_nodes)

lemma neighbors_for_move_nodes:
  "neighbors_for_move g px py d move = Inr nbs \<Longrightarrow> nb \<in> set nbs \<Longrightarrow> nb_pose nb \<in> nodes g"
  unfolding neighbors_for_move_def Let_def
  by (auto split: if_splits sum.splits
      dest: turn_pair_nodes straight_neighbor_nodes half_turn_neighbor_nodes)

lemma neighbors_loop_nodes:
  "neighbors_loop g px py d moves acc = Inr nbs \<Longrightarrow> nb_pose ` set acc \<subseteq> nodes g \<Longrightarrow>
   nb_pose ` set nbs \<subseteq> nodes g"
proof (induction moves arbitrary: acc)
  case Nil
  then show ?case by simp
next
  case (Cons move moves)
  then obtain ns where 1: "neighbors_for_move g px py d move = Inr ns"
    and 2: "neighbors_loop g px py d moves (acc @ ns) = Inr nbs"
    by (auto split: sum.splits)
  have "nb_pose ` set (acc @ ns) \<subseteq> nodes g"
    using Cons.prems(2) neighbors_for_move_nodes [OF 1] by auto
  from Cons.IH [OF 2 this] show ?case .
qed

lemma get_neighboring_states_nodes:
  "get_neighboring_states g px py d = Inr nbs \<Longrightarrow> nb_pose ` set nbs \<subseteq> nodes g"
  unfolding get_neighboring_states_def by (erule neighbors_loop_nodes) simp

lemma expand_visited: "expand g en u st = Inr st' \<Longrightarrow> visited st' = insert u (visited st)"
  by (auto simp: expand_def Let_def split: option.splits sum.splits dest: relax_all_visited)

lemma expand_heap:
  assumes "expand g en u st = Inr st'"
  shows "entry_pose ` set (heap st') \<subseteq> entry_pose ` set (heap st) \<union> nodes g"
proof -
  from assms obtain dist_u nbs where
      n: "get_neighboring_states g (fst u) (fst (snd u)) (snd (snd u)) = Inr nbs"
    and r: "relax_all en u dist_u nbs (st\<lparr>visited := insert u (visited st)\<rparr>) = Inr st'"
    by (auto simp: expand_def Let_def split: option.splits sum.splits)
  from relax_all_heap [OF r] get_neighboring_states_nodes [OF n] show ?thesis
    by simp blast
qed


text \<open>
  The measure of the main loop: the poses not yet visited, among those of the grid and
  those waiting in the queue; then the length of the queue.
\<close>

definition pending :: "Grid \<Rightarrow> astar_state \<Rightarrow> nat" where
  "pending g st =
     card (nodes g - visited st) + card (entry_pose ` set (heap st) - visited st - nodes g)"

lemma heappop_length: "h \<noteq> [] \<Longrightarrow> length (snd (heappop h)) < length h"
  using heappop_in [of h] by (simp add: heappop_def Let_def length_remove1)

lemma heappop_subset: "set (snd (heappop h)) \<subseteq> set h"
  by (simp add: heappop_def Let_def set_remove1_subset)

lemma pending_pop: "pending g (st\<lparr>heap := snd (heappop (heap st))\<rparr>) \<le> pending g st"
proof -
  have "entry_pose ` set (snd (heappop (heap st))) - visited st - nodes g
      \<subseteq> entry_pose ` set (heap st) - visited st - nodes g"
    using heappop_subset [of "heap st"] by blast
  then have "card (entry_pose ` set (snd (heappop (heap st))) - visited st - nodes g)
      \<le> card (entry_pose ` set (heap st) - visited st - nodes g)"
    by (intro card_mono) simp_all
  then show ?thesis by (simp add: pending_def)
qed

lemma pending_expand:
  assumes ne: "heap st \<noteq> []"
    and u: "u = entry_pose (fst (heappop (heap st)))"
    and nv: "u \<notin> visited st"
    and ex: "expand g en u (st\<lparr>heap := snd (heappop (heap st))\<rparr>) = Inr st2"
  shows "pending g st2 < pending g st"
proof -
  let ?V = "visited st" and ?H = "entry_pose ` set (heap st)" and ?U = "nodes g"
  let ?H2 = "entry_pose ` set (heap st2)"
  have v2: "visited st2 = insert u ?V"
    using expand_visited [OF ex] by simp
  have h2: "?H2 \<subseteq> ?H \<union> ?U"
    using expand_heap [OF ex] heappop_subset [of "heap st"] by simp blast
  have uH: "u \<in> ?H"
    using heappop_in [OF ne] u by blast
  have fin: "finite (?U - ?V)" "finite (?H - ?V - ?U)"
    by (simp_all add: finite_nodes)
  have b2: "?H2 - insert u ?V - ?U \<subseteq> (?H - ?V - ?U) - {u}"
    using h2 by blast
  show ?thesis
  proof (cases "u \<in> ?U")
    case True
    have "?U - insert u ?V \<subset> ?U - ?V"
      using True nv by blast
    then have "card (?U - insert u ?V) < card (?U - ?V)"
      by (rule psubset_card_mono [OF fin(1)])
    moreover have "card (?H2 - insert u ?V - ?U) \<le> card (?H - ?V - ?U)"
      by (rule card_mono [OF fin(2)]) (use b2 in blast)
    ultimately show ?thesis
      by (simp add: pending_def v2)
  next
    case False
    have "?U - insert u ?V = ?U - ?V"
      using False by blast
    moreover have "?H2 - insert u ?V - ?U \<subset> ?H - ?V - ?U"
      using b2 uH nv False by blast
    then have "card (?H2 - insert u ?V - ?U) < card (?H - ?V - ?U)"
      by (rule psubset_card_mono [OF fin(2)])
    ultimately show ?thesis
      by (simp add: pending_def v2)
  qed
qed

text \<open>
  The main loop of \<open>_astar_search\<close>.  It ends with \<open>Some cost\<close> when the end pose is
  popped (the source then records the path and returns), with \<open>None\<close> when the queue is
  empty.
\<close>

function astar_loop ::
    "Grid \<Rightarrow> CellState \<Rightarrow> astar_state \<Rightarrow> error + (int option \<times> astar_state)" where
  "astar_loop g en st =
     (if heap st = [] then Inr (None, st)
      else
        let popped = heappop (heap st);
            st1 = st\<lparr>heap := snd popped\<rparr>;
            u = entry_pose (fst popped)
        in
        if u \<in> visited st1 then astar_loop g en st1
        else if is_eq en (fst u) (fst (snd u)) (snd (snd u)) then
          (case g_dist st1 u of
             None \<Rightarrow> Inl KeyError
           | Some cost \<Rightarrow> Inr (Some cost, st1))
        else
          (case expand g en u st1 of
             Inl e \<Rightarrow> Inl e
           | Inr st2 \<Rightarrow> astar_loop g en st2))"
  by pat_completeness auto
termination
proof (relation "inv_image (less_than <*lex*> less_than)
    (\<lambda>(g, en, st). (pending g st, length (heap st)))")
  show "wf (inv_image (less_than <*lex*> less_than)
    (\<lambda>(g, en, st). (pending g st, length (heap st))))"
    by (intro wf_inv_image wf_lex_prod wf_less_than)
next
  fix g :: Grid and en :: CellState and st st1 :: astar_state and popped u
  assume "heap st \<noteq> []" "popped = heappop (heap st)" "st1 = st\<lparr>heap := snd popped\<rparr>"
  then show "((g, en, st1), (g, en, st)) \<in> inv_image (less_than <*lex*> less_than)
    (\<lambda>(g, en, st). (pending g st, length (heap st)))"
    using pending_pop [of g st] heappop_length [of "heap st"] by auto
next
  fix g :: Grid and en :: CellState and st st1 st2 :: astar_state and popped u
  assume "heap st \<noteq> []" "popped = heappop (heap st)" "st1 = st\<lparr>heap := snd popped\<rparr>"
    "u = entry_pose (fst popped)" "u \<notin> visited st1" "expand g en u st1 = Inr st2"
  then show "((g, en, st2), (g, en, st)) \<in> inv_image (less_than <*lex*> less_than)
    (\<lambda>(g, en, st). (pending g st, length (heap st)))"
    using pending_expand [of st u g en st2] by auto
qed

declare astar_loop.simps [simp del]

text \<open>
  Objects.  A \<open>CellState\<close> defines neither \<open>__eq__\<close> nor \<open>__hash__\<close>, so as a dictionary
  key it is compared and hashed by identity.  The objects live in a store, a list of
  their current attribute values; a reference is an index into the store, and a key of
  \<open>path_table\<close> or \<open>cost_table\<close> is a pair of references.  The tables \<open>g_dist\<close>,
  \<open>parent_dict\<close> and \<open>motion_table\<close> are keyed by tuples of integers and directions,
  compared by value.
\<close>

type_synonym ref = nat
type_synonym store = "CellState list"

text \<open>
  Modelled from the spec: \<open>entities/robot.py\<close> is not among the sources.  A planner is
  built from a start pose; \<open>robot.get_start_state()\<close> returns the \<open>CellState\<close> object of
  that pose, here the reference \<open>robot\<close>.
\<close>

record MazeSolver =
  grid :: Grid
  robot :: ref
  path_table :: "ref \<times> ref \<rightharpoonup> pose list"
  cost_table :: "ref \<times> ref \<rightharpoonup> int"
  motion_table :: motion_table

definition new_MazeSolver :: "int \<Rightarrow> int \<Rightarrow> ref \<Rightarrow> MazeSolver" where
  "new_MazeSolver sx sy r =
     \<lparr>grid = new_Grid sx sy, robot = r, path_table = Map.empty, cost_table = Map.empty,
      motion_table = Map.empty\<rparr>"

text \<open>
  The loop of \<open>_record_path\<close> that follows the parent pointers from the end pose.  It
  does not return when the pointers form a cycle: not returning is the value \<open>None\<close>.
\<close>

partial_function (option) parent_chain ::
    "(pose \<rightharpoonup> pose) \<Rightarrow> pose \<Rightarrow> pose list \<Rightarrow> pose list option" where
  "parent_chain parent parent_pointer path =
     (case parent parent_pointer of
        Some p \<Rightarrow> parent_chain parent p (path @ [parent_pointer])
      | None \<Rightarrow> Some (path @ [parent_pointer]))"

declare parent_chain.simps [code]

definition record_path ::
    "store \<Rightarrow> MazeSolver \<Rightarrow> ref \<Rightarrow> ref \<Rightarrow> (pose \<rightharpoonup> pose) \<Rightarrow> int \<Rightarrow> MazeSolver option" where
  "record_path objs solver start_ref end_ref parent cost =
     (let solver1 = solver\<lparr>cost_table :=
            (cost_table solver)((start_ref, end_ref) \<mapsto> cost, (end_ref, start_ref) \<mapsto> cost)\<rparr>;
          en = objs ! end_ref
      in case parent_chain parent (x en, y en, direction en) [] of
           None \<Rightarrow> None
         | Some path \<Rightarrow>
             Some (solver1\<lparr>path_table :=
               (path_table solver1)((start_ref, end_ref) \<mapsto> rev path,
                                    (end_ref, start_ref) \<mapsto> path)\<rparr>))"

text \<open>The state of a search at its start: the start pose on the queue, at distance 0.\<close>

definition initial_state :: "CellState \<Rightarrow> CellState \<Rightarrow> motion_table \<Rightarrow> astar_state" where
  "initial_state start_state en mt =
     \<lparr>heap = [(estimate_distance start_state en,
               x start_state, y start_state, direction start_state)],
      visited = {},
      g_dist = [(x start_state, y start_state, direction start_state) \<mapsto> 0],
      parent_dict = Map.empty,
      motions = mt\<rparr>"

text \<open>
  \<open>_astar_search\<close>.  The memo test and the two tables it fills are keyed by the pair of
  objects \<open>(start, end)\<close>; the search itself reads their attributes.  The motion table
  keeps the edges met by a search that finds no path.
\<close>

definition astar_search ::
    "store \<Rightarrow> MazeSolver \<Rightarrow> ref \<Rightarrow> ref \<Rightarrow> (error + MazeSolver) option" where
  "astar_search objs solver start_ref end_ref =
     (if path_table solver (start_ref, end_ref) \<noteq> None then Some (Inr solver)
      else
        case astar_loop (grid solver) (objs ! end_ref)
               (initial_state (objs ! start_ref) (objs ! end_ref) (motion_table solver)) of
          Inl e \<Rightarrow> Some (Inl e)
        | Inr (None, st) \<Rightarrow> Some (Inr (solver\<lparr>motion_table := motions st\<rparr>))
        | Inr (Some cost, st) \<Rightarrow>
            map_option Inr
              (record_path objs (solver\<lparr>motion_table := motions st\<rparr>) start_ref end_ref
                 (parent_dict st) cost))"

section \<open>The relaxation step\<close>

text \<open>
  Claim C3, as amended.  When a neighbour \<open>v\<close> of \<open>u\<close> that is not visited has no
  recorded \<open>g\<close> yet, or a recorded \<open>g\<close> greater than \<open>g[u] + motion_cost + proximity\<close> (a
  comparison without the screenshot penalty), the relaxation records
  \<open>g[v] = g[u] + motion_cost + proximity + screenshot\<close>, where \<open>screenshot\<close> is the
  penalty of the end pose when \<open>v\<close> is the end pose and 0 otherwise; it pushes \<open>v\<close> with
  the priority \<open>f\<close>, that recorded \<open>g\<close> plus the Manhattan distance to the end, and sets
  the parent of \<open>v\<close> to \<open>u\<close>.  Otherwise \<open>g\<close> is left as it is.  The screenshot penalty
  enters both \<open>g\<close> and \<open>f\<close>.
\<close>

theorem relax_records_g:
  assumes "(new_x, new_y, new_direction) \<notin> visited st"
    and "motion_cost (snd (snd u)) new_direction motion = Inr mc"
  shows "\<exists>st'. relax en u dist_u (new_x, new_y, new_direction, safe_cost, motion) st = Inr st' \<and>
     (if g_dist st (new_x, new_y, new_direction) = None \<or>
         (\<exists>old. g_dist st (new_x, new_y, new_direction) = Some old \<and>
                dist_u + (mc + safe_cost) < old)
      then g_dist st' (new_x, new_y, new_direction) =
             Some (dist_u + (mc + safe_cost) +
                   (if is_eq en new_x new_y new_direction then penalty en else 0)) \<and>
           heap st' = heap st @
             [(dist_u + (mc + safe_cost) +
               (if is_eq en new_x new_y new_direction then penalty en else 0) +
               (\<bar>new_x - x en\<bar> + \<bar>new_y - y en\<bar>), new_x, new_y, new_direction)] \<and>
           parent_dict st' (new_x, new_y, new_direction) = Some u
      else g_dist st' = g_dist st \<and> heap st' = heap st \<and> parent_dict st' = parent_dict st)"
  using assms
  by (cases "g_dist st (new_x, new_y, new_direction)")
     (simp_all add: relax_def Let_def estimate_distance_def new_CellState_def)

definition start_state_1_1 :: astar_state where
  "start_state_1_1 =
     \<lparr>heap = [], visited = {(1, 1, NORTH)}, g_dist = [(1, 1, NORTH) \<mapsto> 0],
      parent_dict = Map.empty, motions = Map.empty\<rparr>"

lemma motion_cost_FORWARD: "motion_cost NORTH NORTH FORWARD = Inr 1"
  by (simp add: motion_cost_def rotation_cost_def reverse_cost_def half_turn_cost_def consts_defs)

theorem relax_records_g_witness:
  "\<exists>st'. relax (new_CellState 1 3 NORTH (ObstacleId 1) 25) (1, 1, NORTH) 0
            (1, 2, NORTH, 0, FORWARD) start_state_1_1 = Inr st' \<and>
         g_dist st' (1, 2, NORTH) = Some 1 \<and> heap st' = [(2, 1, 2, NORTH)] \<and>
         parent_dict st' (1, 2, NORTH) = Some (1, 1, NORTH)"
proof -
  have v: "(1, 2, NORTH) \<notin> visited start_state_1_1"
    by (simp add: start_state_1_1_def)
  have m: "motion_cost (snd (snd (1 :: int, 1 :: int, NORTH))) NORTH FORWARD = Inr 1"
    by (simp add: motion_cost_FORWARD)
  from relax_records_g [OF v m, of "new_CellState 1 3 NORTH (ObstacleId 1) 25" 0 0]
  show ?thesis
    by (simp add: start_state_1_1_def is_eq_def new_CellState_def)
qed

text \<open>
  The claim as stated excludes the screenshot penalty from the recorded \<open>g\<close>.  With the
  end pose (1, 2, north) of penalty 50, the step from (1, 1, north), at distance 0, by
  \<open>FORWARD\<close> (motion cost 1, proximity 0) records \<open>g = 51\<close>, not 1.
\<close>

theorem relax_g_counterexample:
  "motion_cost NORTH NORTH FORWARD = Inr 1 \<and>
   (\<exists>st'. relax (new_CellState 1 2 NORTH (ObstacleId 1) 50) (1, 1, NORTH) 0
            (1, 2, NORTH, 0, FORWARD) start_state_1_1 = Inr st' \<and>
          g_dist st' (1, 2, NORTH) = Some 51 \<and> heap st' = [(51, 1, 2, NORTH)])"
  by (simp add: motion_cost_FORWARD relax_def Let_def start_state_1_1_def is_eq_def
      new_CellState_def estimate_distance_def)

section \<open>The memo tables\<close>

lemma parent_chain_None:
  "parent p = None \<Longrightarrow> parent_chain parent p path = Some (path @ [p])"
  by (subst parent_chain.simps) simp

lemma astar_loop_at_end:
  assumes "heap st = [(f, px, py, pd)]" "(px, py, pd) \<notin> visited st" "is_eq en px py pd"
    "g_dist st (px, py, pd) = Some c"
  shows "astar_loop g en st = Inr (Some c, st\<lparr>heap := []\<rparr>)"
  using assms by (subst astar_loop.simps) (simp add: heappop_def entry_pose_def Let_def)

definition tables_symmetric :: "MazeSolver \<Rightarrow> bool" where
  "tables_symmetric solver \<longleftrightarrow>
     (\<forall>a b. cost_table solver (a, b) = cost_table solver (b, a) \<and>
            path_table solver (a, b) = map_option rev (path_table solver (b, a)))"

lemma cost_update_symmetric:
  fixes C :: "ref \<times> ref \<rightharpoonup> int"
  assumes "C (a, b) = C (b, a)"
  shows "(C((s, e) \<mapsto> cost, (e, s) \<mapsto> cost)) (a, b) =
         (C((s, e) \<mapsto> cost, (e, s) \<mapsto> cost)) (b, a)"
proof -
  have f1: "(C((s, e) \<mapsto> cost, (e, s) \<mapsto> cost)) (e, s) = Some cost"
    and f2: "(C((s, e) \<mapsto> cost, (e, s) \<mapsto> cost)) (s, e) = Some cost"
    by simp_all
  have f3: "(C((s, e) \<mapsto> cost, (e, s) \<mapsto> cost)) k = C k"
    if "k \<noteq> (s, e)" "k \<noteq> (e, s)" for k
    using that by simp
  consider (1) "(a, b) = (e, s)" | (2) "(a, b) = (s, e)"
    | (3) "(a, b) \<noteq> (e, s)" "(a, b) \<noteq> (s, e)"
    by blast
  then show ?thesis
  proof cases
    case 1
    then have "(b, a) = (s, e)" by simp
    with 1 f1 f2 show ?thesis by (simp only:)
  next
    case 2
    then have "(b, a) = (e, s)" by simp
    with 2 f1 f2 show ?thesis by (simp only:)
  next
    case 3
    then have "(b, a) \<noteq> (s, e)" "(b, a) \<noteq> (e, s)" by blast+
    then have "(C((s, e) \<mapsto> cost, (e, s) \<mapsto> cost)) (b, a) = C (b, a)"
      by (intro f3)
    moreover have "(C((s, e) \<mapsto> cost, (e, s) \<mapsto> cost)) (a, b) = C (a, b)"
      using 3 by (intro f3)
    ultimately show ?thesis by (simp only: assms(1))
  qed
qed

lemma path_update_symmetric:
  fixes P :: "ref \<times> ref \<rightharpoonup> pose list"
  assumes "P (a, b) = map_option rev (P (b, a))" and pal: "s = e \<Longrightarrow> rev path = path"
  shows "(P((s, e) \<mapsto> rev path, (e, s) \<mapsto> path)) (a, b) =
         map_option rev ((P((s, e) \<mapsto> rev path, (e, s) \<mapsto> path)) (b, a))"
proof -
  have f1: "(P((s, e) \<mapsto> rev path, (e, s) \<mapsto> path)) (e, s) = Some path"
    by simp
  have f2: "(P((s, e) \<mapsto> rev path, (e, s) \<mapsto> path)) (s, e) = Some (rev path)"
  proof (cases "s = e")
    case True
    with pal have "rev path = path" by blast
    with True show ?thesis by simp
  next
    case False
    then show ?thesis by simp
  qed
  have f3: "(P((s, e) \<mapsto> rev path, (e, s) \<mapsto> path)) k = P k"
    if "k \<noteq> (s, e)" "k \<noteq> (e, s)" for k
    using that by simp
  consider (1) "(a, b) = (e, s)" | (2) "(a, b) = (s, e)"
    | (3) "(a, b) \<noteq> (e, s)" "(a, b) \<noteq> (s, e)"
    by blast
  then show ?thesis
  proof cases
    case 1
    then have "(b, a) = (s, e)" by simp
    with 1 f1 f2 show ?thesis by (simp only: option.map rev_rev_ident)
  next
    case 2
    then have "(b, a) = (e, s)" by simp
    with 2 f1 f2 show ?thesis by (simp only: option.map)
  next
    case 3
    then have "(b, a) \<noteq> (s, e)" "(b, a) \<noteq> (e, s)" by blast+
    then have "(P((s, e) \<mapsto> rev path, (e, s) \<mapsto> path)) (b, a) = P (b, a)"
      by (intro f3)
    moreover have "(P((s, e) \<mapsto> rev path, (e, s) \<mapsto> path)) (a, b) = P (a, b)"
      using 3 by (intro f3)
    ultimately show ?thesis by (simp only: assms(1))
  qed
qed

lemma record_path_result:
  assumes "record_path objs solver start_ref end_ref parent cost = Some solver'"
  obtains path where
    "parent_chain parent (x (objs ! end_ref), y (objs ! end_ref), direction (objs ! end_ref)) []
       = Some path"
    "cost_table solver' =
       (cost_table solver)((start_ref, end_ref) \<mapsto> cost, (end_ref, start_ref) \<mapsto> cost)"
    "path_table solver' =
       (path_table solver)((start_ref, end_ref) \<mapsto> rev path, (end_ref, start_ref) \<mapsto> path)"
    "motion_table solver' = motion_table solver" "grid solver' = grid solver"
    "robot solver' = robot solver"
proof (cases "parent_chain parent
        (x (objs ! end_ref), y (objs ! end_ref), direction (objs ! end_ref)) []")
  case None
  with assms show ?thesis by (simp add: record_path_def Let_def)
next
  case (Some path)
  with assms have "solver' = solver\<lparr>cost_table :=
            (cost_table solver)((start_ref, end_ref) \<mapsto> cost, (end_ref, start_ref) \<mapsto> cost),
          path_table := (path_table solver)((start_ref, end_ref) \<mapsto> rev path,
                                    (end_ref, start_ref) \<mapsto> path)\<rparr>"
    by (simp add: record_path_def Let_def)
  then have "cost_table solver' =
       (cost_table solver)((start_ref, end_ref) \<mapsto> cost, (end_ref, start_ref) \<mapsto> cost)"
    "path_table solver' =
       (path_table solver)((start_ref, end_ref) \<mapsto> rev path, (end_ref, start_ref) \<mapsto> path)"
    "motion_table solver' = motion_table solver" "grid solver' = grid solver"
    "robot solver' = robot solver"
    by simp_all
  with Some that show ?thesis by blast
qed

lemma record_path_symmetric:
  assumes sym: "tables_symmetric solver"
    and same: "start_ref = end_ref \<Longrightarrow>
      parent (x (objs ! end_ref), y (objs ! end_ref), direction (objs ! end_ref)) = None"
    and rec: "record_path objs solver start_ref end_ref parent cost = Some solver'"
  shows "tables_symmetric solver'"
proof -
  from rec obtain path where
      chain: "parent_chain parent
        (x (objs ! end_ref), y (objs ! end_ref), direction (objs ! end_ref)) [] = Some path"
    and c: "cost_table solver' =
      (cost_table solver)((start_ref, end_ref) \<mapsto> cost, (end_ref, start_ref) \<mapsto> cost)"
    and p: "path_table solver' =
      (path_table solver)((start_ref, end_ref) \<mapsto> rev path, (end_ref, start_ref) \<mapsto> path)"
    by (rule record_path_result)
  have pal: "rev path = path" if "start_ref = end_ref"
  proof -
    have "parent (x (objs ! end_ref), y (objs ! end_ref), direction (objs ! end_ref)) = None"
      using that by (rule same)
    then have "parent_chain parent
        (x (objs ! end_ref), y (objs ! end_ref), direction (objs ! end_ref)) []
      = Some ([] @ [(x (objs ! end_ref), y (objs ! end_ref), direction (objs ! end_ref))])"
      by (rule parent_chain_None)
    with chain have "path = [(x (objs ! end_ref), y (objs ! end_ref), direction (objs ! end_ref))]"
      by simp
    then show ?thesis by simp
  qed
  have sc: "cost_table solver (a, b) = cost_table solver (b, a)"
    and sp: "path_table solver (a, b) = map_option rev (path_table solver (b, a))" for a b
    using sym unfolding tables_symmetric_def by blast+
  have "cost_table solver' (a, b) = cost_table solver' (b, a)" for a b
    unfolding c by (rule cost_update_symmetric) (rule sc)
  moreover have "path_table solver' (a, b) = map_option rev (path_table solver' (b, a))" for a b
    unfolding p by (rule path_update_symmetric) (rule sp, erule pal)
  ultimately show ?thesis
    unfolding tables_symmetric_def by blast
qed


lemma astar_search_result:
  assumes "astar_search objs solver a b = Some (Inr solver')"
  obtains (memo) "path_table solver (a, b) \<noteq> None" "solver' = solver"
  | (not_found) st where "path_table solver (a, b) = None"
      "astar_loop (grid solver) (objs ! b)
         (initial_state (objs ! a) (objs ! b) (motion_table solver)) = Inr (None, st)"
      "solver' = solver\<lparr>motion_table := motions st\<rparr>"
  | (found) st cost where "path_table solver (a, b) = None"
      "astar_loop (grid solver) (objs ! b)
         (initial_state (objs ! a) (objs ! b) (motion_table solver)) = Inr (Some cost, st)"
      "record_path objs (solver\<lparr>motion_table := motions st\<rparr>) a b (parent_dict st) cost
         = Some solver'"
proof (cases "path_table solver (a, b)")
  case (Some p)
  with assms have "solver' = solver" by (simp add: astar_search_def)
  with Some memo show ?thesis by simp
next
  case None
  show ?thesis
  proof (cases "astar_loop (grid solver) (objs ! b)
         (initial_state (objs ! a) (objs ! b) (motion_table solver))")
    case (Inl e)
    with assms None show ?thesis by (simp add: astar_search_def)
  next
    case (Inr r)
    obtain oc st where r: "r = (oc, st)" by (cases r)
    show ?thesis
    proof (cases oc)
      case None': None
      with assms None Inr r have "solver' = solver\<lparr>motion_table := motions st\<rparr>"
        by (simp add: astar_search_def)
      with None None' Inr r not_found show ?thesis by simp
    next
      case (Some cost)
      with assms None Inr r have
        "record_path objs (solver\<lparr>motion_table := motions st\<rparr>) a b (parent_dict st) cost
           = Some solver'"
        by (simp add: astar_search_def)
      with None Some Inr r found show ?thesis by simp
    qed
  qed
qed

lemma tables_symmetric_motion_table [simp]:
  "tables_symmetric (solver\<lparr>motion_table := m\<rparr>) = tables_symmetric solver"
  by (simp add: tables_symmetric_def)

lemma astar_search_symmetric:
  assumes sym: "tables_symmetric solver"
    and res: "astar_search objs solver a b = Some (Inr solver')"
  shows "tables_symmetric solver'"
  using res
proof (cases rule: astar_search_result)
  case memo
  with sym show ?thesis by simp
next
  case (not_found st)
  with sym show ?thesis by simp
next
  case (found st cost)
  have msym: "tables_symmetric (solver\<lparr>motion_table := motions st\<rparr>)"
    using sym by simp
  have "parent_dict st (x (objs ! b), y (objs ! b), direction (objs ! b)) = None" if "a = b"
  proof -
    have "astar_loop (grid solver) (objs ! b)
        (initial_state (objs ! a) (objs ! b) (motion_table solver))
      = Inr (Some 0, (initial_state (objs ! a) (objs ! b) (motion_table solver))\<lparr>heap := []\<rparr>)"
      by (rule astar_loop_at_end [where f = "estimate_distance (objs ! a) (objs ! b)"
            and px = "x (objs ! a)" and py = "y (objs ! a)" and pd = "direction (objs ! a)"])
         (simp_all add: initial_state_def is_eq_def that)
    with found(2) have "st = (initial_state (objs ! a) (objs ! b) (motion_table solver))\<lparr>heap := []\<rparr>"
      by simp
    then show ?thesis by (simp add: initial_state_def)
  qed
  from record_path_symmetric [OF msym this found(3)] show ?thesis .
qed


text \<open>The states of a solver after any sequence of searches, between any objects.\<close>

inductive after_searches :: "MazeSolver \<Rightarrow> MazeSolver \<Rightarrow> bool" for solver0 where
  no_search: "after_searches solver0 solver0"
| one_more: "after_searches solver0 solver \<Longrightarrow>
             astar_search objs solver a b = Some (Inr solver') \<Longrightarrow>
             after_searches solver0 solver'"

text \<open>
  A search on an empty 5 by 5 grid, from the object 0 at (1, 1, north) to the object 1
  at (1, 2, north).  The object 2 is a second object at (1, 1, north).
\<close>

definition example_start :: CellState where
  "example_start = new_CellState 1 1 NORTH (Tags []) 0"

definition example_end :: CellState where
  "example_end = new_CellState 1 2 NORTH (ObstacleId 1) 0"

definition example_objects :: store where
  "example_objects = [example_start, example_end, example_start]"

definition example_solver_after :: MazeSolver where
  "example_solver_after =
     \<lparr>grid = new_Grid 5 5, robot = 0,
      path_table = [(0, 1) \<mapsto> [(1, 1, NORTH), (1, 2, NORTH)],
                    (1, 0) \<mapsto> [(1, 2, NORTH), (1, 1, NORTH)]],
      cost_table = [(0, 1) \<mapsto> 1, (1, 0) \<mapsto> 1],
      motion_table = [(1, 1, NORTH, 1, 2, NORTH) \<mapsto> FORWARD]\<rparr>"

definition example_state_0 :: astar_state where
  "example_state_0 =
     \<lparr>heap = [(1, 1, 1, NORTH)], visited = {}, g_dist = [(1, 1, NORTH) \<mapsto> 0],
      parent_dict = Map.empty, motions = Map.empty\<rparr>"

definition example_state_1 :: astar_state where
  "example_state_1 =
     \<lparr>heap = [(1, 1, 2, NORTH)], visited = {(1, 1, NORTH)},
      g_dist = [(1, 1, NORTH) \<mapsto> 0, (1, 2, NORTH) \<mapsto> 1],
      parent_dict = [(1, 2, NORTH) \<mapsto> (1, 1, NORTH)],
      motions = [(1, 1, NORTH, 1, 2, NORTH) \<mapsto> FORWARD]\<rparr>"

lemma example_objects_nth:
  "example_objects ! 0 = example_start" "example_objects ! 1 = example_end"
  "example_objects ! Suc 0 = example_end" "example_objects ! 2 = example_start"
  by (simp_all add: example_objects_def)

lemma example_end_is_eq:
  "is_eq example_end px py pd \<longleftrightarrow> px = 1 \<and> py = 2 \<and> pd = NORTH"
  by (auto simp: is_eq_def example_end_def new_CellState_def)

lemma example_neighbors:
  "get_neighboring_states (new_Grid 5 5) 1 1 NORTH = Inr [(1, 2, NORTH, 0, FORWARD)]"
  by (simp add: get_neighboring_states_def consts_defs neighbors_for_move_def
    turn_pair_def turn_neighbor_def turn_reachable_def get_turn_checking_points_def
    is_valid_coord_def new_Grid_def get_half_turn_displacement_def straight_neighbor_def
    half_turn_neighbor_def half_turn_reachable_def reachable_def calculate_safe_cost_def)

lemma example_initial_state:
  "initial_state example_start example_end Map.empty = example_state_0"
  by (simp add: initial_state_def example_start_def example_end_def new_CellState_def
      estimate_distance_def example_state_0_def)

lemma example_expand:
  "expand (new_Grid 5 5) example_end (1, 1, NORTH) (example_state_0\<lparr>heap := []\<rparr>)
     = Inr example_state_1"
  by (simp add: expand_def example_state_0_def example_state_1_def example_neighbors relax_def
      motion_cost_FORWARD Let_def example_end_is_eq estimate_distance_def)
     (simp add: example_end_def new_CellState_def)

lemma example_loop_0:
  "astar_loop (new_Grid 5 5) example_end example_state_0
     = astar_loop (new_Grid 5 5) example_end example_state_1"
proof -
  have pop: "heappop (heap example_state_0) = ((1, 1, 1, NORTH), [])"
    by (simp add: heappop_def example_state_0_def)
  have ne: "heap example_state_0 \<noteq> []" and nv: "(1, 1, NORTH) \<notin> visited example_state_0"
    by (simp_all add: example_state_0_def)
  show ?thesis
    by (subst astar_loop.simps)
       (simp add: pop ne nv entry_pose_def Let_def example_end_is_eq example_expand)
qed

lemma example_loop:
  "astar_loop (new_Grid 5 5) example_end example_state_0
     = Inr (Some 1, example_state_1\<lparr>heap := []\<rparr>)"
  unfolding example_loop_0
  by (rule astar_loop_at_end [where f = 1 and px = 1 and py = 2 and pd = NORTH])
     (simp_all add: example_state_1_def example_end_is_eq)

lemma example_chain:
  "parent_chain [(1, 2, NORTH) \<mapsto> (1, 1, NORTH)] (1, 2, NORTH) []
      = Some [(1, 2, NORTH), (1 :: int, 1 :: int, NORTH)]"
  by (subst parent_chain.simps, simp, subst parent_chain.simps, simp)

lemma example_search:
  "astar_search example_objects (new_MazeSolver 5 5 0) 0 1 = Some (Inr example_solver_after)"
proof -
  have pose: "(x example_end, y example_end, direction example_end) = (1, 2, NORTH)"
    by (simp add: example_end_def new_CellState_def)
  have "record_path example_objects
      ((new_MazeSolver 5 5 0)\<lparr>motion_table := [(1, 1, NORTH, 1, 2, NORTH) \<mapsto> FORWARD]\<rparr>)
      0 1 [(1, 2, NORTH) \<mapsto> (1, 1, NORTH)] 1 = Some example_solver_after"
    unfolding record_path_def Let_def example_objects_nth pose example_chain
    by (simp add: new_MazeSolver_def example_solver_after_def)
  then show ?thesis
    unfolding astar_search_def
    by (simp add: example_objects_nth new_MazeSolver_def example_initial_state example_loop
        example_state_1_def)
qed


text \<open>
  Claim C7.  After any sequence of A* searches, started with empty tables, for every
  pair \<open>(a, b)\<close>: \<open>cost_table[(a, b)]\<close> exists iff \<open>cost_table[(b, a)]\<close> exists, the two
  values are equal, and \<open>path_table[(a, b)]\<close> is the reverse of \<open>path_table[(b, a)]\<close>.
\<close>

theorem tables_symmetric_after_searches:
  assumes "path_table solver0 = Map.empty" and "cost_table solver0 = Map.empty"
    and "after_searches solver0 solver"
  shows "(cost_table solver (a, b) = None \<longleftrightarrow> cost_table solver (b, a) = None) \<and>
         cost_table solver (a, b) = cost_table solver (b, a) \<and>
         path_table solver (a, b) = map_option rev (path_table solver (b, a))"
proof -
  have "tables_symmetric solver"
    using assms(3)
  proof (induction rule: after_searches.induct)
    case no_search
    show ?case unfolding tables_symmetric_def assms(1,2) by simp
  next
    case (one_more solver objs a b solver')
    from one_more.IH one_more.hyps(2) show ?case
      by (rule astar_search_symmetric)
  qed
  then have "cost_table solver (a, b) = cost_table solver (b, a)"
    and "path_table solver (a, b) = map_option rev (path_table solver (b, a))"
    unfolding tables_symmetric_def by blast+
  then show ?thesis by (simp only: simp_thms)
qed

theorem tables_symmetric_after_searches_witness:
  "after_searches (new_MazeSolver 5 5 0) example_solver_after \<and>
   cost_table example_solver_after (0, 1) = Some 1 \<and>
   cost_table example_solver_after (1, 0) = cost_table example_solver_after (0, 1) \<and>
   path_table example_solver_after (0, 1) = Some [(1, 1, NORTH), (1, 2, NORTH)] \<and>
   path_table example_solver_after (1, 0) = Some (rev [(1, 1, NORTH), (1, 2, NORTH)])"
proof -
  have after: "after_searches (new_MazeSolver 5 5 0) example_solver_after"
    by (rule one_more [OF no_search example_search])
  have e1: "path_table (new_MazeSolver 5 5 0) = Map.empty"
    and e2: "cost_table (new_MazeSolver 5 5 0) = Map.empty"
    by (simp_all add: new_MazeSolver_def)
  have c: "cost_table example_solver_after (0, 1) = Some 1"
    and p: "path_table example_solver_after (0, 1) = Some [(1, 1, NORTH), (1, 2, NORTH)]"
    by (simp_all add: example_solver_after_def)
  from tables_symmetric_after_searches [OF e1 e2 after, of 1 0]
  have "cost_table example_solver_after (1, 0) = cost_table example_solver_after (0, 1)"
    and "path_table example_solver_after (1, 0)
           = map_option rev (path_table example_solver_after (0, 1))"
    by blast+
  with after c p show ?thesis by (simp only: option.map simp_thms)
qed

text \<open>
  Claim C2, as amended.  Two poses are equal as memo-table keys if and only if they
  are the same object: after a search between the objects \<open>start\<close> and \<open>end\<close>, started
  with empty tables, the only keys of \<open>path_table\<close> and \<open>cost_table\<close> are the pairs
  \<open>(start, end)\<close> and \<open>(end, start)\<close> of these two objects, so a lookup with any other
  object misses, whatever its \<open>(x, y, direction)\<close>.  No attribute takes part in the
  equality or the hash of a key: once the pair is stored, the memo test of a later
  search between the same two objects hits whatever values their attributes have then
  (the store \<open>objs'\<close>).
\<close>

theorem memo_keys_are_object_pairs:
  assumes "path_table solver = Map.empty" and "cost_table solver = Map.empty"
    and "astar_search objs solver start_ref end_ref = Some (Inr solver')"
  shows "(\<forall>a b. path_table solver' (a, b) \<noteq> None \<longrightarrow>
            (a, b) = (start_ref, end_ref) \<or> (a, b) = (end_ref, start_ref)) \<and>
         (\<forall>a b. cost_table solver' (a, b) \<noteq> None \<longrightarrow>
            (a, b) = (start_ref, end_ref) \<or> (a, b) = (end_ref, start_ref)) \<and>
         (path_table solver' (start_ref, end_ref) \<noteq> None \<longrightarrow>
            (\<forall>objs'. astar_search objs' solver' start_ref end_ref = Some (Inr solver')))"
proof -
  have keys: "(\<forall>a b. path_table solver' (a, b) \<noteq> None \<longrightarrow>
            (a, b) = (start_ref, end_ref) \<or> (a, b) = (end_ref, start_ref)) \<and>
         (\<forall>a b. cost_table solver' (a, b) \<noteq> None \<longrightarrow>
            (a, b) = (start_ref, end_ref) \<or> (a, b) = (end_ref, start_ref))"
    using assms(3)
  proof (cases rule: astar_search_result)
    case memo
    with assms(1) show ?thesis by simp
  next
    case (not_found st)
    with assms(1,2) show ?thesis by simp
  next
    case (found st cost)
    from found(3) obtain path where
        "cost_table solver' = (cost_table (solver\<lparr>motion_table := motions st\<rparr>))
           ((start_ref, end_ref) \<mapsto> cost, (end_ref, start_ref) \<mapsto> cost)"
        "path_table solver' = (path_table (solver\<lparr>motion_table := motions st\<rparr>))
           ((start_ref, end_ref) \<mapsto> rev path, (end_ref, start_ref) \<mapsto> path)"
      by (rule record_path_result)
    with assms(1,2) show ?thesis
      by (simp add: fun_upd_def)
  qed
  moreover have "astar_search objs' solver' start_ref end_ref = Some (Inr solver')"
    if "path_table solver' (start_ref, end_ref) \<noteq> None" for objs'
    using that by (simp add: astar_search_def)
  ultimately show ?thesis by blast
qed

theorem memo_keys_are_object_pairs_witness:
  "astar_search example_objects (new_MazeSolver 5 5 0) 0 1 = Some (Inr example_solver_after) \<and>
   path_table example_solver_after (0, 1) \<noteq> None \<and>
   path_table example_solver_after (2, 1) = None \<and>
   astar_search [example_start\<lparr>penalty := 7\<rparr>, example_end\<lparr>screenshot_id := Tags [''1_C'']\<rparr>]
     example_solver_after 0 1 = Some (Inr example_solver_after)"
proof -
  have e1: "path_table (new_MazeSolver 5 5 0) = Map.empty"
    and e2: "cost_table (new_MazeSolver 5 5 0) = Map.empty"
    by (simp_all add: new_MazeSolver_def)
  have p: "path_table example_solver_after (0, 1) \<noteq> None"
    by (simp add: example_solver_after_def)
  note keys = memo_keys_are_object_pairs [OF e1 e2 example_search]
  from keys have "path_table example_solver_after (2, 1) \<noteq> None \<longrightarrow>
      (2 :: nat, 1 :: nat) = (0, 1) \<or> (2 :: nat, 1 :: nat) = (1, 0)"
    by blast
  then have miss: "path_table example_solver_after (2, 1) = None"
    by simp
  from keys p have "astar_search
      [example_start\<lparr>penalty := 7\<rparr>, example_end\<lparr>screenshot_id := Tags [''1_C'']\<rparr>]
      example_solver_after 0 1 = Some (Inr example_solver_after)"
    by blast
  with example_search p miss show ?thesis by blast
qed

text \<open>
  The claim as stated makes two poses equal as keys when they agree on
  \<open>(x, y, direction)\<close>.  The objects 0 and 2 of the example agree on all three, and the
  entry stored for the pair of objects (0, 1) is not found under the pair (2, 1).
\<close>

theorem memo_key_counterexample:
  "astar_search example_objects (new_MazeSolver 5 5 0) 0 1 = Some (Inr example_solver_after) \<and>
   path_table example_solver_after (0, 1) = Some [(1, 1, NORTH), (1, 2, NORTH)] \<and>
   cost_table example_solver_after (0, 1) = Some 1 \<and>
   x (example_objects ! 2) = x (example_objects ! 0) \<and>
   y (example_objects ! 2) = y (example_objects ! 0) \<and>
   direction (example_objects ! 2) = direction (example_objects ! 0) \<and>
   path_table example_solver_after (2, 1) = None \<and>
   cost_table example_solver_after (2, 1) = None"
  using example_search
  by (simp add: example_solver_after_def example_objects_nth)

section \<open>The tour planner (algorithms/algo.py)\<close>

text \<open>
  \<open>_generate_paths\<close>: a search between every two states of the list, the earlier one
  as the start.
\<close>

fun generate_paths_from ::
    "store \<Rightarrow> MazeSolver \<Rightarrow> ref \<Rightarrow> ref list \<Rightarrow> (error + MazeSolver) option" where
  "generate_paths_from objs solver s [] = Some (Inr solver)"
| "generate_paths_from objs solver s (t # ts) =
     (case astar_search objs solver s t of
        None \<Rightarrow> None
      | Some (Inl e) \<Rightarrow> Some (Inl e)
      | Some (Inr solver') \<Rightarrow> generate_paths_from objs solver' s ts)"

fun generate_paths :: "store \<Rightarrow> MazeSolver \<Rightarrow> ref list \<Rightarrow> (error + MazeSolver) option" where
  "generate_paths objs solver [] = Some (Inr solver)"
| "generate_paths objs solver (s # states) =
     (case generate_paths_from objs solver s states of
        None \<Rightarrow> None
      | Some (Inl e) \<Rightarrow> Some (Inl e)
      | Some (Inr solver') \<Rightarrow> generate_paths objs solver' states)"

text \<open>
  \<open>_get_visit_options\<close>: the binary numerals of \<open>0 .. 2 ** n - 1\<close> without the prefix
  \<open>0b\<close>, filled with zeros on the left to the width \<open>max_len\<close>, sorted by the number of
  ones, most ones first.  Python's sort is stable, also with \<open>reverse=True\<close>, and so is
  \<open>sort_key\<close>.
\<close>

fun bin_str :: "nat \<Rightarrow> string" where
  "bin_str n =
     (if n < 2 then [if n = 0 then CHR ''0'' else CHR ''1'']
      else bin_str (n div 2) @ [if n mod 2 = 0 then CHR ''0'' else CHR ''1''])"

declare bin_str.simps [simp del]

definition zfill :: "nat \<Rightarrow> string \<Rightarrow> string" where
  "zfill width s = replicate (width - length s) CHR ''0'' @ s"

definition count_ones :: "string \<Rightarrow> nat" where
  "count_ones s = length (filter (\<lambda>c. c = CHR ''1'') s)"

definition get_visit_options :: "nat \<Rightarrow> string list" where
  "get_visit_options n =
     (let max_len = count_ones (bin_str (2 ^ n - 1));
          strings = map (\<lambda>i. zfill max_len (bin_str i)) [0..<2 ^ n]
      in sort_key (\<lambda>s. - int (count_ones s)) strings)"

text \<open>\<open>_get_capture_relative_position\<close>.\<close>

definition get_capture_relative_position :: "CellState \<Rightarrow> Obstacle \<Rightarrow> error + string" where
  "get_capture_relative_position cell_state obstacle =
     (let px = x cell_state; py = y cell_state; d = direction cell_state;
          x_obs = x obstacle; y_obs = y obstacle
      in
      if d = NORTH then
        (if x_obs = px \<and> y_obs > py then Inr ''C'' else if x_obs < px then Inr ''L'' else Inr ''R'')
      else if d = SOUTH then
        (if x_obs = px \<and> y_obs < py then Inr ''C'' else if x_obs < px then Inr ''R'' else Inr ''L'')
      else if d = EAST then
        (if y_obs = py \<and> x_obs > px then Inr ''C'' else if y_obs < py then Inr ''R'' else Inr ''L'')
      else if d = WEST then
        (if y_obs = py \<and> x_obs < px then Inr ''C'' else if y_obs < py then Inr ''L'' else Inr ''R'')
      else Inl ValueError)"

text \<open>The decimal numeral of an integer, as \<open>str\<close> and an f-string print it.\<close>

fun str_nat :: "nat \<Rightarrow> string" where
  "str_nat n =
     (if n < 10 then [char_of (48 + n)] else str_nat (n div 10) @ [char_of (48 + n mod 10)])"

declare str_nat.simps [simp del]

definition str_int :: "int \<Rightarrow> string" where
  "str_int i = (if i < 0 then CHR ''-'' # str_nat (nat (- i)) else str_nat (nat i))"

text \<open>
  The state of a call of \<open>get_optimal_path\<close>: the store of the objects, the solver with
  its tables, and the two local variables \<open>optimal_path\<close> (a list of objects) and
  \<open>min_dist\<close>.  The costs are the integers the source holds in floating point; the
  sentinel \<open>1e9\<close> is \<open>10 ^ 9\<close>.
\<close>

record plan_state =
  pl_objs :: store
  pl_solver :: MazeSolver
  optimal_path :: "ref list"
  min_dist :: int

text \<open>The references of the objects of \<open>views\<close>, created one after the other from \<open>k\<close> on.\<close>

fun alloc_views :: "nat \<Rightarrow> 'a list list \<Rightarrow> ref list list" where
  "alloc_views k [] = []"
| "alloc_views k (v # vs) = [k..<k + length v] # alloc_views (k + length v) vs"

text \<open>
  The loop over \<open>range(num_views)\<close> that selects the views of the set bits of \<open>bin_pos\<close>.
\<close>

fun select_views :: "string \<Rightarrow> 'a list list \<Rightarrow> nat \<Rightarrow> error + 'a list list" where
  "select_views bin_pos [] i = Inr []"
| "select_views bin_pos (v # vs) i =
     (if i < length bin_pos then
        (case select_views bin_pos vs (i + 1) of
           Inl e \<Rightarrow> Inl e
         | Inr sel \<Rightarrow> Inr (if bin_pos ! i = CHR ''1'' then v # sel else sel))
      else Inl IndexError)"

text \<open>
  The loop over \<open>enumerate(cur_view_positions)\<close> that builds \<open>visited\<close>, the indices into
  \<open>visit_states\<close> of the chosen poses, and adds up their penalties.
\<close>

fun build_visited ::
    "store \<Rightarrow> ref list list \<Rightarrow> nat list \<Rightarrow> nat \<Rightarrow> nat list \<times> int \<Rightarrow> error + (nat list \<times> int)" where
  "build_visited objs [] combination current_idx acc = Inr acc"
| "build_visited objs (view_pos # rest) [] current_idx acc = Inl IndexError"
| "build_visited objs (view_pos # rest) (c # cs) current_idx acc =
     (if c < length view_pos then
        build_visited objs rest cs (current_idx + length view_pos)
          (fst acc @ [current_idx + c], snd acc + penalty (objs ! (view_pos ! c)))
      else Inl IndexError)"

text \<open>
  The cost matrix of the chosen poses: the recorded cost of a pair, \<open>1e9\<close> where none is
  recorded, the same in both directions, 0 on the diagonal, and the column 0 set to 0.
\<close>

definition cost_matrix :: "MazeSolver \<Rightarrow> ref list \<Rightarrow> nat list \<Rightarrow> int list list" where
  "cost_matrix solver visit_states visited_idx =
     map (\<lambda>i. map (\<lambda>j.
            if j = 0 then 0
            else if i = j then 0
            else (case cost_table solver (visit_states ! (visited_idx ! min i j),
                                          visit_states ! (visited_idx ! max i j)) of
                    Some c \<Rightarrow> c
                  | None \<Rightarrow> 10 ^ 9))
          [0..<length visited_idx])
       [0..<length visited_idx]"

text \<open>
  The loop that appends the poses of a stored path, without its first pose, to
  \<open>optimal_path\<close>: each is a new \<open>CellState\<close> object.
\<close>

fun append_cells :: "pose list \<Rightarrow> plan_state \<Rightarrow> plan_state" where
  "append_cells [] st = st"
| "append_cells (p # ps) st =
     append_cells ps
       (st\<lparr>pl_objs := pl_objs st @ [new_CellState (fst p) (fst (snd p)) (snd (snd p)) (Tags []) 0],
           optimal_path := optimal_path st @ [length (pl_objs st)]\<rparr>)"

text \<open>
  The loop over the consecutive pairs of the permutation: the stored path of the pair is
  appended, and the last pose of \<open>optimal_path\<close> receives the tag of the obstacle that
  \<open>to_state\<close> views.
\<close>

fun rebuild_path :: "ref list \<Rightarrow> nat list \<Rightarrow> nat list \<Rightarrow> plan_state \<Rightarrow> error + plan_state" where
  "rebuild_path visit_states visited_idx (p # q # rest) st =
     (if p < length visited_idx \<and> q < length visited_idx \<and> visited_idx ! p < length visit_states \<and>
         visited_idx ! q < length visit_states then
        let from_state = visit_states ! (visited_idx ! p);
            to_state = visit_states ! (visited_idx ! q)
        in
        case path_table (pl_solver st) (from_state, to_state) of
          None \<Rightarrow> Inl KeyError
        | Some current_path \<Rightarrow>
            let st1 = append_cells (tl current_path) st in
            (case find_obstacle_by_id (obstacles (grid (pl_solver st1)))
                    (screenshot_id (pl_objs st1 ! to_state)) of
               None \<Rightarrow> Inl ValueError
             | Some corresponding_obs \<Rightarrow>
                 let last_ref = last (optimal_path st1) in
                 (case get_capture_relative_position (pl_objs st1 ! last_ref) corresponding_obs of
                    Inl e \<Rightarrow> Inl e
                  | Inr pos \<Rightarrow>
                     (case add_screenshot (pl_objs st1 ! last_ref)
                             (str_int (obstacle_id corresponding_obs) @ ''_'' @ pos) of
                        Inl e \<Rightarrow> Inl e
                      | Inr cell \<Rightarrow>
                          rebuild_path visit_states visited_idx (q # rest)
                            (st1\<lparr>pl_objs := (pl_objs st1)[last_ref := cell]\<rparr>))))
      else Inl IndexError)"
| "rebuild_path visit_states visited_idx permutation st = Inr st"

text \<open>
  The body of the loop over the combinations.  \<open>tsp\<close> stands for
  \<open>python_tsp.exact.solve_tsp_dynamic_programming\<close>, a library outside the repository:
  it maps the cost matrix to a permutation and its distance.
\<close>

definition combination_step ::
    "(int list list \<Rightarrow> nat list \<times> int) \<Rightarrow> ref list \<Rightarrow> ref list list \<Rightarrow> nat list \<Rightarrow> plan_state
       \<Rightarrow> error + plan_state" where
  "combination_step tsp visit_states cur_view_positions combination st =
     (case build_visited (pl_objs st) cur_view_positions combination 1 ([0], 0) of
        Inl e \<Rightarrow> Inl e
      | Inr (visited_idx, cost) \<Rightarrow>
          let result = tsp (cost_matrix (pl_solver st) visit_states visited_idx);
              permutation = fst result; distance = snd result
          in
          if distance + cost \<ge> min_dist st then Inr st
          else
            (case visit_states of
               [] \<Rightarrow> Inl IndexError
             | start_ref # others \<Rightarrow>
                 rebuild_path visit_states visited_idx permutation
                   (st\<lparr>min_dist := distance + cost, optimal_path := [start_ref]\<rparr>)))"

fun combinations_loop ::
    "(int list list \<Rightarrow> nat list \<times> int) \<Rightarrow> ref list \<Rightarrow> ref list list \<Rightarrow> nat list list \<Rightarrow> plan_state
       \<Rightarrow> error + plan_state" where
  "combinations_loop tsp visit_states cur_view_positions [] st = Inr st"
| "combinations_loop tsp visit_states cur_view_positions (combination # rest) st =
     (case combination_step tsp visit_states cur_view_positions combination st of
        Inl e \<Rightarrow> Inl e
      | Inr st' \<Rightarrow> combinations_loop tsp visit_states cur_view_positions rest st')"

text \<open>The body of the loop over the subsets, up to the test that leaves the loop.\<close>

definition subset_step ::
    "(int list list \<Rightarrow> nat list \<times> int) \<Rightarrow> ref list list \<Rightarrow> string \<Rightarrow> plan_state
       \<Rightarrow> (error + plan_state) option" where
  "subset_step tsp views bin_pos st =
     (case select_views bin_pos views 0 of
        Inl e \<Rightarrow> Some (Inl e)
      | Inr cur_view_positions \<Rightarrow>
          let visit_states = robot (pl_solver st) # concat cur_view_positions in
          (case generate_paths (pl_objs st) (pl_solver st) visit_states of
             None \<Rightarrow> None
           | Some (Inl e) \<Rightarrow> Some (Inl e)
           | Some (Inr solver') \<Rightarrow>
              (case generate_combinations cur_view_positions 0 [] [] ITERATIONS of
                 Inl e \<Rightarrow> Some (Inl e)
               | Inr combinations \<Rightarrow>
                   Some (combinations_loop tsp visit_states cur_view_positions combinations
                           (st\<lparr>pl_solver := solver'\<rparr>)))))"

fun subsets_loop ::
    "(int list list \<Rightarrow> nat list \<times> int) \<Rightarrow> ref list list \<Rightarrow> string list \<Rightarrow> plan_state
       \<Rightarrow> (error + plan_state) option" where
  "subsets_loop tsp views [] st = Some (Inr st)"
| "subsets_loop tsp views (bin_pos # rest) st =
     (case subset_step tsp views bin_pos st of
        None \<Rightarrow> None
      | Some (Inl e) \<Rightarrow> Some (Inl e)
      | Some (Inr st') \<Rightarrow>
          if optimal_path st' \<noteq> [] then Some (Inr st')
          else subsets_loop tsp views rest st')"

text \<open>
  \<open>get_optimal_path\<close>.  The viewing poses are new objects, placed in the store after
  the existing ones.  The result holds the returned pair \<open>(optimal_path, min_dist)\<close> with
  the store in which the objects of the path are read.
\<close>

definition get_optimal_path ::
    "(int list list \<Rightarrow> nat list \<times> int) \<Rightarrow> store \<Rightarrow> MazeSolver \<Rightarrow> (error + plan_state) option" where
  "get_optimal_path tsp objs solver =
     (let views = get_view_obstacle_positions (grid solver);
          num_views = length views
      in subsets_loop tsp (alloc_views (length objs) views) (get_visit_options num_views)
           \<lparr>pl_objs = objs @ concat views, pl_solver = solver, optimal_path = [],
            min_dist = 10 ^ 9\<rparr>)"

text \<open>
  Modelled from the spec: \<open>python_tsp\<close> is a library outside the sources; the spec
  names its solver an exact dynamic programme over subsets (Held-Karp).  For the
  matrix \<open>M\<close> it returns the order of a cheapest closed tour from node 0 through all
  the nodes, and its cost; among equal costs the node met first is taken.  It is used
  to instantiate \<open>tsp\<close> on concrete inputs.
\<close>

fun first_min :: "(int \<times> nat list) \<Rightarrow> (int \<times> nat list) list \<Rightarrow> int \<times> nat list" where
  "first_min best [] = best"
| "first_min best (c # cs) = first_min (if fst c < fst best then c else best) cs"

fun held_karp :: "nat \<Rightarrow> int list list \<Rightarrow> nat \<Rightarrow> nat list \<Rightarrow> int \<times> nat list" where
  "held_karp 0 M ni N = (M ! ni ! 0, [])"
| "held_karp (Suc k) M ni N =
     (case map (\<lambda>nj. let r = held_karp k M nj (remove1 nj N)
                      in (M ! ni ! nj + fst r, nj # snd r)) N of
        [] \<Rightarrow> (M ! ni ! 0, [])
      | c # cs \<Rightarrow> first_min c cs)"

definition solve_tsp_dynamic_programming :: "int list list \<Rightarrow> nat list \<times> int" where
  "solve_tsp_dynamic_programming M =
     (let r = held_karp (length M - 1) M 0 [1..<length M] in (0 # snd r, fst r))"

section \<open>The planner when no obstacle can be viewed\<close>

lemma generate_combinations_empty_list:
  "index \<le> length vps \<Longrightarrow> [] \<in> set (drop index vps) \<Longrightarrow>
   generate_combinations vps index current result num_iters = Inr result"
  "index < length vps \<Longrightarrow> [] \<in> set (drop (index + 1) vps) \<Longrightarrow>
   generate_combinations_loop vps index current result n is = Inr result"
proof (induction vps index current result num_iters and vps index current result n "is"
    rule: generate_combinations_generate_combinations_loop.induct)
  case (1 view_positions index current result num_iters)
  from 1(3) have ne: "index \<noteq> length view_positions" by auto
  with 1(2) have lt: "index < length view_positions" by simp
  show ?case
  proof (cases num_iters)
    case 0
    with ne show ?thesis by simp
  next
    case (Suc n)
    have d: "drop index view_positions = view_positions ! index # drop (index + 1) view_positions"
      using lt by (simp add: Cons_nth_drop_Suc)
    show ?thesis
    proof (cases "view_positions ! index = []")
      case True
      with ne lt Suc show ?thesis by simp
    next
      case False
      with 1(3) d have "[] \<in> set (drop (index + 1) view_positions)" by auto
      from 1(1) [OF ne Suc lt lt this] ne lt Suc show ?thesis by simp
    qed
  qed
next
  case (2 view_positions index current result n)
  show ?case by simp
next
  case (3 view_positions index current result n i rest)
  have a: "generate_combinations view_positions (index + 1) (current @ [i]) result n = Inr result"
    using 3(1) 3(3,4) by simp
  from 3(2) [OF a 3(3,4)] a show ?case by simp
qed

lemma generate_paths_single: "generate_paths objs solver [r] = Some (Inr solver)"
  by simp

definition ones_in :: "string \<Rightarrow> nat \<Rightarrow> nat \<Rightarrow> nat" where
  "ones_in b i m = length (filter (\<lambda>j. b ! j = CHR ''1'') [i..<i + m])"

lemma ones_in_0: "ones_in b i 0 = 0"
  by (simp add: ones_in_def)

lemma ones_in_Suc:
  "ones_in b i (Suc m) = (if b ! i = CHR ''1'' then 1 else 0) + ones_in b (Suc i) m"
proof -
  have "[i..<i + Suc m] = i # [Suc i..<Suc i + m]"
    by (simp add: upt_conv_Cons del: upt_Suc)
  then show ?thesis
    unfolding ones_in_def by simp
qed

lemma select_views_empty:
  "\<forall>v \<in> set views. v = [] \<Longrightarrow> i + length views \<le> length b \<Longrightarrow>
   select_views b views i = Inr (replicate (ones_in b i (length views)) [])"
proof (induction views arbitrary: i)
  case Nil
  then show ?case by (simp add: ones_in_0)
next
  case (Cons v views)
  from Cons.prems have "select_views b views (i + 1) =
      Inr (replicate (ones_in b (i + 1) (length views)) [])"
    by (intro Cons.IH) auto
  with Cons.prems show ?case
    by (simp add: ones_in_Suc)
qed

lemma alloc_views_empty: "\<forall>v \<in> set views. v = [] \<Longrightarrow> \<forall>r \<in> set (alloc_views k views). r = []"
  by (induction views arbitrary: k) auto

lemma length_alloc_views: "length (alloc_views k views) = length views"
  by (induction views arbitrary: k) auto

lemma concat_empty: "\<forall>v \<in> set vs. v = [] \<Longrightarrow> concat vs = []"
  by (induction vs) auto

lemma cost_matrix_single: "cost_matrix solver vs [0] = [[0]]"
  by (simp add: cost_matrix_def)

text \<open>A subset with a set bit, when no obstacle has a viewing pose: nothing changes.\<close>

lemma subset_step_no_view:
  assumes e: "\<forall>v \<in> set views. v = []" and len: "length views \<le> length b"
    and one: "ones_in b 0 (length views) \<noteq> 0"
  shows "subset_step tsp views b st = Some (Inr st)"
proof -
  let ?sel = "replicate (ones_in b 0 (length views)) ([] :: ref list)"
  have sel: "select_views b views 0 = Inr ?sel"
    using select_views_empty [OF e, of 0 b] len by simp
  have c: "concat ?sel = []" by (rule concat_empty) simp
  have "[] \<in> set (drop 0 ?sel)" using one by simp
  then have g: "generate_combinations ?sel 0 [] [] ITERATIONS = Inr []"
    by (intro generate_combinations_empty_list(1)) simp_all
  show ?thesis
    unfolding subset_step_def sel
    by (simp add: c g del: generate_combinations.simps)
qed

text \<open>
  The empty subset for any views.  It is the last one of the list, and the first for
  which the planner keeps a tour when none was kept before: the start alone, at cost 0.
\<close>

lemma select_views_zero:
  "ones_in b i (length views) = 0 \<Longrightarrow> i + length views \<le> length b \<Longrightarrow>
   select_views b views i = Inr []"
proof (induction views arbitrary: i)
  case Nil
  then show ?case by simp
next
  case (Cons v views)
  from Cons.prems(1) have z: "b ! i \<noteq> CHR ''1''" "ones_in b (Suc i) (length views) = 0"
    by (simp_all add: ones_in_Suc split: if_splits)
  from z(2) Cons.prems(2) have "select_views b views (i + 1) = Inr []"
    using Cons.IH [of "i + 1"] by simp
  with z(1) Cons.prems(2) show ?case by simp
qed

lemma subset_step_zero:
  assumes len: "length views \<le> length b"
    and zero: "ones_in b 0 (length views) = 0"
    and tsp: "tsp [[0]] = ([0], 0)" and m: "0 < min_dist st"
  shows "subset_step tsp views b st =
     Some (Inr (st\<lparr>min_dist := 0, optimal_path := [robot (pl_solver st)]\<rparr>))"
proof -
  have sel: "select_views b views 0 = Inr []"
    using select_views_zero [OF zero] len by simp
  have g: "generate_combinations ([] :: ref list list) 0 [] [] ITERATIONS = Inr [[]]"
    by simp
  show ?thesis
    unfolding subset_step_def sel
    using m
    by (simp add: g combination_step_def cost_matrix_single tsp
        del: generate_combinations.simps)
qed

lemma subsets_loop_no_view:
  assumes e: "\<forall>v \<in> set views. v = []"
    and tsp: "tsp [[0]] = ([0], 0)"
    and st: "optimal_path st = []" "0 < min_dist st"
    and len: "\<forall>b \<in> set bs. length views \<le> length b"
    and z: "\<exists>b \<in> set bs. ones_in b 0 (length views) = 0"
  shows "subsets_loop tsp views bs st =
     Some (Inr (st\<lparr>min_dist := 0, optimal_path := [robot (pl_solver st)]\<rparr>))"
  using len z
proof (induction bs)
  case Nil
  then show ?case by simp
next
  case (Cons b bs)
  show ?case
  proof (cases "ones_in b 0 (length views) = 0")
    case True
    have "length views \<le> length b" using Cons.prems(1) by simp
    then have "subset_step tsp views b st =
        Some (Inr (st\<lparr>min_dist := 0, optimal_path := [robot (pl_solver st)]\<rparr>))"
      using True tsp st(2) by (rule subset_step_zero)
    then show ?thesis by simp
  next
    case False
    have "length views \<le> length b" using Cons.prems(1) by simp
    from subset_step_no_view [OF e this False, of tsp st]
    have "subset_step tsp views b st = Some (Inr st)" .
    moreover from Cons.prems False have "\<exists>b \<in> set bs. ones_in b 0 (length views) = 0"
      by auto
    ultimately show ?thesis
      using Cons.IH Cons.prems(1) st(1) by simp
  qed
qed


lemma bin_str_all_ones: "0 < n \<Longrightarrow> bin_str (2 ^ n - 1) = replicate n CHR ''1''"
proof (induction n)
  case 0
  then show ?case by simp
next
  case (Suc n)
  show ?case
  proof (cases "n = 0")
    case True
    then show ?thesis by (simp add: bin_str.simps)
  next
    case False
    then have ih: "bin_str (2 ^ n - 1) = replicate n CHR ''1''"
      using Suc.IH by simp
    have ge: "(2 :: nat) \<le> 2 ^ n" using False by (cases n) simp_all
    have "(2 :: nat) ^ Suc n - 1 = 2 * (2 ^ n - 1) + 1"
      using ge by simp
    then have d: "((2 :: nat) ^ Suc n - 1) div 2 = 2 ^ n - 1"
      and m: "((2 :: nat) ^ Suc n - 1) mod 2 = 1"
      by presburger+
    have big: "\<not> (2 :: nat) ^ Suc n - 1 < 2" using ge by simp
    have "bin_str (2 ^ Suc n - 1) = bin_str (2 ^ n - 1) @ [CHR ''1'']"
      by (subst bin_str.simps) (simp only: big d m if_False, simp)
    also have "\<dots> = replicate (Suc n) CHR ''1''"
      unfolding ih by (simp add: replicate_append_same)
    finally show ?thesis .
  qed
qed

lemma max_len_eq: "count_ones (bin_str (2 ^ n - 1)) = n"
proof (cases "n = 0")
  case True
  then show ?thesis by (simp add: bin_str.simps count_ones_def)
next
  case False
  then have "bin_str (2 ^ n - 1) = replicate n CHR ''1''"
    by (simp only: bin_str_all_ones)
  then show ?thesis
    unfolding count_ones_def by (simp only: filter_replicate, simp)
qed

lemma set_get_visit_options:
  "set (get_visit_options n) = (\<lambda>i. zfill n (bin_str i)) ` {0..<2 ^ n}"
  unfolding get_visit_options_def Let_def max_len_eq by simp

lemma length_zfill: "length (zfill w s) = max w (length s)"
  by (simp add: zfill_def)

lemma visit_options_long_enough: "b \<in> set (get_visit_options n) \<Longrightarrow> n \<le> length b"
  by (auto simp: set_get_visit_options length_zfill)

lemma ones_in_all_zero:
  assumes "set b \<subseteq> {CHR ''0''}" "i + m \<le> length b"
  shows "ones_in b i m = 0"
proof -
  have "b ! j \<noteq> CHR ''1''" if "j < length b" for j
    using assms(1) nth_mem [OF that] by auto
  with assms(2) show ?thesis
    by (auto simp: ones_in_def filter_empty_conv)
qed

lemma visit_options_has_empty_subset:
  "\<exists>b \<in> set (get_visit_options n). ones_in b 0 n = 0"
proof -
  let ?b = "zfill n (bin_str 0)"
  have "?b \<in> set (get_visit_options n)"
    by (simp add: set_get_visit_options)
  moreover have "set ?b \<subseteq> {CHR ''0''}"
    by (auto simp: zfill_def bin_str.simps)
  then have "ones_in ?b 0 n = 0"
    by (rule ones_in_all_zero) (simp add: length_zfill)
  ultimately show ?thesis by blast
qed

lemma get_optimal_path_no_view:
  assumes e: "\<forall>v \<in> set (get_view_obstacle_positions (grid solver)). v = []"
    and tsp: "tsp [[0]] = ([0], 0)"
  shows "get_optimal_path tsp objs solver =
     Some (Inr \<lparr>pl_objs = objs, pl_solver = solver, optimal_path = [robot solver],
                min_dist = 0\<rparr>)"
proof -
  let ?views = "get_view_obstacle_positions (grid solver)"
  let ?refs = "alloc_views (length objs) ?views"
  let ?st = "\<lparr>pl_objs = objs @ concat ?views, pl_solver = solver, optimal_path = [],
              min_dist = 10 ^ 9\<rparr>"
  have r: "\<forall>v \<in> set ?refs. v = []"
    using e by (rule alloc_views_empty)
  have l: "length ?refs = length ?views"
    by (rule length_alloc_views)
  have "subsets_loop tsp ?refs (get_visit_options (length ?views)) ?st =
      Some (Inr (?st\<lparr>min_dist := 0, optimal_path := [robot (pl_solver ?st)]\<rparr>))"
    using r tsp
  proof (rule subsets_loop_no_view)
    show "optimal_path ?st = []" by simp
    show "0 < min_dist ?st" by simp
    show "\<forall>b \<in> set (get_visit_options (length ?views)). length ?refs \<le> length b"
      unfolding l by (blast intro: visit_options_long_enough)
    show "\<exists>b \<in> set (get_visit_options (length ?views)). ones_in b 0 (length ?refs) = 0"
      unfolding l by (rule visit_options_has_empty_subset)
  qed
  then show ?thesis
    unfolding get_optimal_path_def Let_def
    by (simp add: concat_empty [OF e])
qed


text \<open>
  The two local variables change together: \<open>optimal_path\<close> is empty exactly as long as
  \<open>min_dist\<close> is the initial \<open>1e9\<close>, and a kept tour costs less than that.
\<close>

definition tour_kept :: "plan_state \<Rightarrow> bool" where
  "tour_kept st = (if optimal_path st = [] then min_dist st = 10 ^ 9 else min_dist st < 10 ^ 9)"

lemma append_cells_keeps:
  "min_dist (append_cells ps st) = min_dist st"
  "optimal_path st \<noteq> [] \<Longrightarrow> optimal_path (append_cells ps st) \<noteq> []"
  by (induction ps arbitrary: st) simp_all

lemma rebuild_path_keeps:
  "rebuild_path vs vi perm st = Inr st' \<Longrightarrow> optimal_path st \<noteq> [] \<Longrightarrow>
   min_dist st' = min_dist st \<and> optimal_path st' \<noteq> []"
proof (induction vs vi perm st rule: rebuild_path.induct)
  case (1 vs vi p q rest st)
  from "1.prems"(1) obtain current_path corresponding_obs pos cell where
    p: "path_table (pl_solver st) (vs ! (vi ! p), vs ! (vi ! q)) = Some current_path"
    and ob: "find_obstacle_by_id (obstacles (grid (pl_solver (append_cells (tl current_path) st))))
          (screenshot_id (pl_objs (append_cells (tl current_path) st) ! (vs ! (vi ! q))))
        = Some corresponding_obs"
    and pos: "get_capture_relative_position
          (pl_objs (append_cells (tl current_path) st) !
             last (optimal_path (append_cells (tl current_path) st))) corresponding_obs = Inr pos"
    and cell: "add_screenshot
          (pl_objs (append_cells (tl current_path) st) !
             last (optimal_path (append_cells (tl current_path) st)))
          (str_int (obstacle_id corresponding_obs) @ ''_'' @ pos) = Inr cell"
    and r: "rebuild_path vs vi (q # rest)
          ((append_cells (tl current_path) st)
             \<lparr>pl_objs := (pl_objs (append_cells (tl current_path) st))
                [last (optimal_path (append_cells (tl current_path) st)) := cell]\<rparr>) = Inr st'"
    and ok: "p < length vi \<and> q < length vi \<and> vi ! p < length vs \<and> vi ! q < length vs"
    by (simp add: Let_def split: if_splits option.splits sum.splits)
  let ?st1 = "append_cells (tl current_path) st"
  let ?st2 = "?st1\<lparr>pl_objs := (pl_objs ?st1)[last (optimal_path ?st1) := cell]\<rparr>"
  have ne: "optimal_path ?st2 \<noteq> []"
    using append_cells_keeps(2) [OF "1.prems"(2)] by simp
  have "min_dist st' = min_dist ?st2 \<and> optimal_path st' \<noteq> []"
    using ok refl refl p refl ob refl pos cell r ne by (rule "1.IH")
  then show ?case by (simp add: append_cells_keeps(1))
qed simp_all

lemma combination_step_keeps:
  assumes "combination_step tsp vs cvp combination st = Inr st'" "tour_kept st"
  shows "tour_kept st'"
proof -
  from assms(1) obtain visited_idx cost where
    b: "build_visited (pl_objs st) cvp combination 1 ([0], 0) = Inr (visited_idx, cost)"
    unfolding combination_step_def by (auto split: sum.splits)
  let ?r = "tsp (cost_matrix (pl_solver st) vs visited_idx)"
  show ?thesis
  proof (cases "snd ?r + cost \<ge> min_dist st")
    case True
    with assms b show ?thesis by (simp add: combination_step_def Let_def)
  next
    case False
    with assms(1) b obtain start_ref others where vs: "vs = start_ref # others"
      and r: "rebuild_path vs visited_idx (fst ?r)
          (st\<lparr>min_dist := snd ?r + cost, optimal_path := [start_ref]\<rparr>) = Inr st'"
      by (auto simp: combination_step_def Let_def split: list.splits)
    from rebuild_path_keeps [OF r]
    have "min_dist st' = snd ?r + cost" "optimal_path st' \<noteq> []" by simp_all
    moreover from assms(2) have "min_dist st \<le> 10 ^ 9"
      by (simp add: tour_kept_def split: if_splits)
    ultimately show ?thesis using False by (simp add: tour_kept_def)
  qed
qed

lemma combinations_loop_keeps:
  "combinations_loop tsp vs cvp combinations st = Inr st' \<Longrightarrow> tour_kept st \<Longrightarrow> tour_kept st'"
proof (induction combinations arbitrary: st)
  case Nil
  then show ?case by simp
next
  case (Cons c combinations)
  from Cons.prems(1) obtain st1 where
    s: "combination_step tsp vs cvp c st = Inr st1"
    and l: "combinations_loop tsp vs cvp combinations st1 = Inr st'"
    by (auto split: sum.splits)
  from s Cons.prems(2) have "tour_kept st1" by (rule combination_step_keeps)
  with l show ?case by (rule Cons.IH)
qed

lemma subset_step_keeps:
  assumes "subset_step tsp views b st = Some (Inr st')" "tour_kept st"
  shows "tour_kept st'"
proof -
  from assms(1) obtain cvp solver' combinations where
    l: "combinations_loop tsp (robot (pl_solver st) # concat cvp) cvp combinations
          (st\<lparr>pl_solver := solver'\<rparr>) = Inr st'"
    unfolding subset_step_def Let_def
    by (auto split: sum.splits option.splits)
  moreover have "tour_kept (st\<lparr>pl_solver := solver'\<rparr>) = tour_kept st"
    unfolding tour_kept_def by simp
  with assms(2) have "tour_kept (st\<lparr>pl_solver := solver'\<rparr>)" by simp
  ultimately show ?thesis by (rule combinations_loop_keeps)
qed

lemma subsets_loop_keeps_tour:
  assumes tsp: "tsp [[0]] = ([0], 0)"
  shows "subsets_loop tsp views bs st = Some (Inr res) \<Longrightarrow>
    tour_kept st \<Longrightarrow> optimal_path st = [] \<Longrightarrow>
    \<forall>b \<in> set bs. length views \<le> length b \<Longrightarrow>
    \<exists>b \<in> set bs. ones_in b 0 (length views) = 0 \<Longrightarrow>
    optimal_path res \<noteq> [] \<and> min_dist res < 10 ^ 9"
proof (induction bs arbitrary: st)
  case Nil
  then show ?case by simp
next
  case (Cons b bs)
  from Cons.prems(1) obtain st1 where
    s: "subset_step tsp views b st = Some (Inr st1)"
    and l: "(if optimal_path st1 \<noteq> [] then Some (Inr st1) else subsets_loop tsp views bs st1)
        = Some (Inr res)"
    by (auto split: option.splits sum.splits)
  from s Cons.prems(2) have k: "tour_kept st1" by (rule subset_step_keeps)
  show ?case
  proof (cases "optimal_path st1 = []")
    case False
    with l have "res = st1" by simp
    with k False show ?thesis by (simp add: tour_kept_def split: if_splits)
  next
    case True
    have len: "length views \<le> length b" using Cons.prems(4) by simp
    have m: "0 < min_dist st" using Cons.prems(2,3) by (simp add: tour_kept_def)
    have "ones_in b 0 (length views) \<noteq> 0"
    proof
      assume "ones_in b 0 (length views) = 0"
      with len have "subset_step tsp views b st =
          Some (Inr (st\<lparr>min_dist := 0, optimal_path := [robot (pl_solver st)]\<rparr>))"
        using tsp m by (rule subset_step_zero)
      with s have "st1 = st\<lparr>min_dist := 0, optimal_path := [robot (pl_solver st)]\<rparr>"
        by simp
      then have "optimal_path st1 \<noteq> []" by simp
      with True show False by simp
    qed
    with Cons.prems(5) have z: "\<exists>b \<in> set bs. ones_in b 0 (length views) = 0" by auto
    from l True have "subsets_loop tsp views bs st1 = Some (Inr res)" by simp
    then show ?thesis
      using k True Cons.prems(4) z by (intro Cons.IH) simp_all
  qed
qed

lemma get_optimal_path_keeps_tour:
  assumes tsp: "tsp [[0]] = ([0], 0)"
    and r: "get_optimal_path tsp objs solver = Some (Inr res)"
  shows "optimal_path res \<noteq> [] \<and> min_dist res < 10 ^ 9"
proof -
  let ?views = "get_view_obstacle_positions (grid solver)"
  let ?refs = "alloc_views (length objs) ?views"
  let ?st = "\<lparr>pl_objs = objs @ concat ?views, pl_solver = solver, optimal_path = [],
              min_dist = 10 ^ 9\<rparr>"
  have l: "length ?refs = length ?views"
    by (rule length_alloc_views)
  from r have "subsets_loop tsp ?refs (get_visit_options (length ?views)) ?st = Some (Inr res)"
    unfolding get_optimal_path_def Let_def .
  with tsp show ?thesis
  proof (rule subsets_loop_keeps_tour)
    show "tour_kept ?st" by (simp add: tour_kept_def)
    show "optimal_path ?st = []" by simp
    show "\<forall>b \<in> set (get_visit_options (length ?views)). length ?refs \<le> length b"
      unfolding l by (blast intro: visit_options_long_enough)
    show "\<exists>b \<in> set (get_visit_options (length ?views)). ones_in b 0 (length ?refs) = 0"
      unfolding l by (rule visit_options_has_empty_subset)
  qed
qed


lemma solve_tsp_single: "solve_tsp_dynamic_programming [[0]] = ([0], 0)"
  by (simp add: solve_tsp_dynamic_programming_def)

text \<open>
  A planner on the default grid whose one obstacle, at (5, 1), faces south: all its
  viewing cells lie below the grid.
\<close>

definition walled_solver :: MazeSolver where
  "walled_solver =
     (new_MazeSolver 20 20 0)\<lparr>grid := add_obstacle (new_Grid 20 20) (new_Obstacle 5 1 SOUTH 1)\<rparr>"

lemma view_state_5_1_SOUTH: "get_view_state (new_Obstacle 5 1 SOUTH 1) = []"
  by (simp add: get_view_state_def view_cells_def view_costs_def consts_defs
      is_valid_grid_position_def Grid_size_x_def Grid_size_y_def new_Obstacle_def
      new_CellState_def)

lemma walled_solver_grid:
  "grid walled_solver = \<lparr>size_x = 20, size_y = 20, obstacles = [new_Obstacle 5 1 SOUTH 1]\<rparr>"
  by (simp add: walled_solver_def new_MazeSolver_def add_obstacle_def new_Grid_def)

lemma walled_solver_views: "get_view_obstacle_positions (grid walled_solver) = [[]]"
proof -
  have "direction (new_Obstacle 5 1 SOUTH 1) \<noteq> SKIP"
    by (simp add: new_Obstacle_def)
  then show ?thesis
    unfolding walled_solver_grid
    by (simp add: get_view_obstacle_positions_def view_state_5_1_SOUTH)
qed

text \<open>
  Claim C1, as amended.  The spec says that \<open>get_optimal_path\<close> returns the empty list
  and an infinite cost when every enumerated subset yields no tour, for example when no
  obstacle has a reachable viewing pose.  In the code the cost starts at \<open>1e9\<close>, and the
  empty subset is always among the enumerated ones: its tour is the start pose alone,
  at cost 0, which is below \<open>1e9\<close>.  So, with a solver \<open>tsp\<close> that returns the tour
  \<open>[0]\<close> of cost 0 for the one-node matrix: when no obstacle has a reachable viewing
  pose, \<open>get_optimal_path\<close> returns the list holding the start pose and the cost 0;
  and whenever \<open>get_optimal_path\<close> returns, the list is not empty and the cost is
  below \<open>1e9\<close>.
\<close>

theorem get_optimal_path_never_empty:
  assumes "tsp [[0]] = ([0], 0)"
  shows "((\<forall>v \<in> set (get_view_obstacle_positions (grid solver)). v = []) \<longrightarrow>
          get_optimal_path tsp objs solver =
            Some (Inr \<lparr>pl_objs = objs, pl_solver = solver, optimal_path = [robot solver],
                       min_dist = 0\<rparr>)) \<and>
         (\<forall>res. get_optimal_path tsp objs solver = Some (Inr res) \<longrightarrow>
            optimal_path res \<noteq> [] \<and> min_dist res < 10 ^ 9)"
  using assms get_optimal_path_no_view [of solver tsp objs]
    get_optimal_path_keeps_tour [of tsp objs solver]
  by blast

theorem get_optimal_path_never_empty_witness:
  "solve_tsp_dynamic_programming [[0]] = ([0], 0) \<and>
   get_view_obstacle_positions (grid (new_MazeSolver 20 20 0)) = [] \<and>
   get_optimal_path solve_tsp_dynamic_programming [example_start] (new_MazeSolver 20 20 0) =
     Some (Inr \<lparr>pl_objs = [example_start], pl_solver = new_MazeSolver 20 20 0,
                optimal_path = [0], min_dist = 0\<rparr>) \<and>
   optimal_path \<lparr>pl_objs = [example_start], pl_solver = new_MazeSolver 20 20 0,
                 optimal_path = [0], min_dist = 0\<rparr> \<noteq> [] \<and>
   min_dist \<lparr>pl_objs = [example_start], pl_solver = new_MazeSolver 20 20 0,
             optimal_path = [0], min_dist = 0\<rparr> < 10 ^ 9"
proof -
  let ?s = "new_MazeSolver 20 20 0"
  let ?res = "\<lparr>pl_objs = [example_start], pl_solver = ?s, optimal_path = [0 :: nat],
               min_dist = 0 :: int\<rparr>"
  have v: "get_view_obstacle_positions (grid ?s) = []"
    by (simp add: new_MazeSolver_def new_Grid_def get_view_obstacle_positions_def)
  have r: "robot ?s = 0"
    by (simp add: new_MazeSolver_def)
  note t = get_optimal_path_never_empty
    [where tsp = solve_tsp_dynamic_programming and solver = ?s and objs = "[example_start]"]
  from t solve_tsp_single v have "get_optimal_path solve_tsp_dynamic_programming [example_start] ?s =
      Some (Inr \<lparr>pl_objs = [example_start], pl_solver = ?s, optimal_path = [robot ?s],
                 min_dist = 0\<rparr>)"
    by simp
  then have g: "get_optimal_path solve_tsp_dynamic_programming [example_start] ?s =
      Some (Inr ?res)"
    unfolding r .
  with t solve_tsp_single have "optimal_path ?res \<noteq> [] \<and> min_dist ?res < 10 ^ 9"
    by blast
  with solve_tsp_single v g show ?thesis by blast
qed

text \<open>
  The claim as stated gives the empty list and an infinite cost when no obstacle has a
  reachable viewing pose.  The one obstacle of \<open>walled_solver\<close> has none, and the
  planner returns the list holding the start pose, object 0, and the cost 0.
\<close>

theorem get_optimal_path_no_tour_counterexample:
  "get_view_obstacle_positions (grid walled_solver) = [[]] \<and>
   get_optimal_path solve_tsp_dynamic_programming [example_start] walled_solver =
     Some (Inr \<lparr>pl_objs = [example_start], pl_solver = walled_solver, optimal_path = [0],
                min_dist = 0\<rparr>)"
proof -
  have r: "robot walled_solver = 0"
    by (simp add: walled_solver_def new_MazeSolver_def)
  have "\<forall>v \<in> set (get_view_obstacle_positions (grid walled_solver)). v = []"
    unfolding walled_solver_views by simp
  then have "get_optimal_path solve_tsp_dynamic_programming [example_start] walled_solver =
      Some (Inr \<lparr>pl_objs = [example_start], pl_solver = walled_solver,
                 optimal_path = [robot walled_solver], min_dist = 0\<rparr>)"
    using solve_tsp_single by (rule get_optimal_path_no_view)
  then show ?thesis
    unfolding r using walled_solver_views by simp
qed

end
